theory Spec2Isabelle
  imports Main
begin

section \<open>JavaScript values and string operations\<close>

text \<open>
  Strings are character lists. A value of type \<open>string | null | undefined\<close> is a
  \<open>string option\<close>, with \<open>None\<close> for the absent value. JavaScript's truthiness test on
  such a value (\<open>if (v)\<close>, \<open>!!v\<close>) holds for a string that is present and not empty.
\<close>

abbreviation LF :: char where "LF \<equiv> CHR 0x0A"
abbreviation CR :: char where "CR \<equiv> CHR 0x0D"

definition truthy :: "string option \<Rightarrow> bool" where
  "truthy v = (case v of None \<Rightarrow> False | Some s \<Rightarrow> s \<noteq> [])"

text \<open>\<open>isString\<close> and \<open>isNonEmptyString\<close> of the \<open>is\<close> library.\<close>

definition isString :: "string option \<Rightarrow> bool" where
  "isString v = (v \<noteq> None)"

definition isNonEmptyString :: "string option \<Rightarrow> bool" where
  "isNonEmptyString v = (case v of None \<Rightarrow> False | Some s \<Rightarrow> length s > 0)"

text \<open>\<open>s.startsWith(t)\<close>, \<open>s.endsWith(t)\<close>, \<open>s.includes(t)\<close> (named \<open>str_includes\<close>) and \<open>xs.join(sep)\<close>.\<close>

definition startsWith :: "string \<Rightarrow> string \<Rightarrow> bool" where
  "startsWith s t = (take (length t) s = t)"

definition endsWith :: "string \<Rightarrow> string \<Rightarrow> bool" where
  "endsWith s t = (length t \<le> length s \<and> drop (length s - length t) s = t)"

fun str_includes :: "string \<Rightarrow> string \<Rightarrow> bool" where
  "str_includes [] t = (t = [])"
| "str_includes (c # cs) t = (startsWith (c # cs) t \<or> str_includes cs t)"

fun join :: "string \<Rightarrow> string list \<Rightarrow> string" where
  "join sep [] = []"
| "join sep [x] = x"
| "join sep (x # y # ys) = x @ sep @ join sep (y # ys)"

section \<open>Registry configuration: \<open>resolveNpmrc\<close>\<close>

text \<open>
  The collaborators of \<open>resolveNpmrc\<close>: the upward file search and the file read of
  \<open>util/fs\<close>, the global \<open>exposeAllEnv\<close> flag, and the two helpers of \<open>util/regex\<close>,
  which is not among the sources: \<open>split(newlineRegex)\<close>, and \<open>regEx\<close>, which builds the
  expression it is given with the engine of its choice. What the code reads of that
  engine is the set of characters its dot matches (RE2: every character but the line
  feed; the native engine: every character but the line terminators), \<open>regexDot\<close>.
  They are parameters of the model.
\<close>

record npmrc_env =
  findLocalSiblingOrParent :: "string \<Rightarrow> string \<Rightarrow> string option"
  readLocalFile :: "string \<Rightarrow> string option"
  exposeAllEnv :: bool
  splitNewline :: "string \<Rightarrow> string list"
  regexDot :: "char \<Rightarrow> bool"

text \<open>The \<open>config\<close> argument, \<open>{ npmrc?: string; npmrcMerge?: boolean }\<close>.\<close>

record npmrc_config =
  config_npmrc :: "string option"
  config_npmrcMerge :: "bool option"

record NpmrcResult =
  npmrc :: "string option"
  npmrcFileName :: "string option"

text \<open>
  Modelled from the spec: \<open>newlineRegex\<close> of \<open>util/regex\<close> is not among the sources. The
  repository text is line oriented; this splitter breaks it at every line feed, taking
  one carriage return before the line feed as part of the line break. It is the splitter
  of the concrete environments below.
\<close>

fun splitLines :: "string \<Rightarrow> string list" where
  "splitLines [] = [[]]"
| "splitLines (c # cs) =
     (if c = LF then [] # splitLines cs
      else (case cs of
              d # ds \<Rightarrow>
                if c = CR \<and> d = LF then [] # splitLines ds
                else (case splitLines cs of l # ls \<Rightarrow> (c # l) # ls | [] \<Rightarrow> [[c]])
            | [] \<Rightarrow> [[c]]))"

text \<open>
  \<open>repoNpmrc.replace(regEx(/(^|\n)package-lock.*?(\n|$)/g), '\n')\<close>.
  The expression has no multiline flag: \<open>^\<close> is the start of the text and \<open>$\<close> its end.
  The lazy \<open>.*?\<close> followed by \<open>(\n|$)\<close> tries the end of the match first at every
  position: it runs to the first line feed (consumed) or to the end of the text, and the
  match fails when a character comes first that the dot of the engine does not match.
  \<open>restOfLine\<close> returns the text after the match.
\<close>

fun restOfLine :: "(char \<Rightarrow> bool) \<Rightarrow> string \<Rightarrow> string option" where
  "restOfLine dot [] = Some []"
| "restOfLine dot (c # cs) =
     (if c = LF then Some cs else if dot c then restOfLine dot cs else None)"

definition packageLockMatch :: "(char \<Rightarrow> bool) \<Rightarrow> string \<Rightarrow> string option" where
  "packageLockMatch dot s =
     (if startsWith s ''package-lock'' then restOfLine dot (drop 12 s) else None)"

lemma startsWith_length: "startsWith s t \<Longrightarrow> length t \<le> length s"
  unfolding startsWith_def by (metis length_take min.cobounded1)

lemma restOfLine_length: "restOfLine dot s = Some r \<Longrightarrow> length r \<le> length s"
  by (induction s) (auto split: if_splits)

lemma packageLockMatch_length:
  "packageLockMatch dot s = Some r \<Longrightarrow> length r + 12 \<le> length s"
proof -
  assume m: "packageLockMatch dot s = Some r"
  then have sw: "startsWith s ''package-lock''" and rl: "restOfLine dot (drop 12 s) = Some r"
    by (auto simp: packageLockMatch_def split: if_splits)
  from startsWith_length [OF sw] have "12 \<le> length s" by simp
  moreover from rl have "length r \<le> length s - 12"
    using restOfLine_length by fastforce
  ultimately show ?thesis by simp
qed

text \<open>
  The global replacement scans from the left; after a match the scan resumes behind it,
  where \<open>^\<close> no longer holds. The flag says whether the position is the start of the text.
\<close>

function replacePackageLock :: "(char \<Rightarrow> bool) \<Rightarrow> bool \<Rightarrow> string \<Rightarrow> string" where
  "replacePackageLock dot atStart [] = []"
| "replacePackageLock dot atStart (c # cs) =
     (case (if atStart then packageLockMatch dot (c # cs) else None) of
        Some rest \<Rightarrow> LF # replacePackageLock dot False rest
      | None \<Rightarrow>
          (case (if c = LF then packageLockMatch dot cs else None) of
             Some rest \<Rightarrow> LF # replacePackageLock dot False rest
           | None \<Rightarrow> c # replacePackageLock dot False cs))"
  by pat_completeness auto
termination
proof (relation "measure (\<lambda>(d, b, s). length s)")
  show "wf (measure (\<lambda>(d :: char \<Rightarrow> bool, b :: bool, s :: string). length s))" by simp
next
  fix dot :: "char \<Rightarrow> bool" and atStart :: bool and c :: char and cs rest :: string
  assume "(if atStart then packageLockMatch dot (c # cs) else None) = Some rest"
  then have "packageLockMatch dot (c # cs) = Some rest" by (simp split: if_splits)
  from packageLockMatch_length [OF this]
  show "((dot, False, rest), (dot, atStart, c # cs)) \<in> measure (\<lambda>(d, b, s). length s)"
    by simp
next
  fix dot :: "char \<Rightarrow> bool" and atStart :: bool and c :: char and cs rest :: string
  assume "(if c = LF then packageLockMatch dot cs else None) = Some rest"
  then have "packageLockMatch dot cs = Some rest" by (simp split: if_splits)
  from packageLockMatch_length [OF this]
  show "((dot, False, rest), (dot, atStart, c # cs)) \<in> measure (\<lambda>(d, b, s). length s)"
    by simp
next
  fix dot :: "char \<Rightarrow> bool" and atStart :: bool and c :: char and cs :: string
  show "((dot, False, cs), (dot, atStart, c # cs)) \<in> measure (\<lambda>(d, b, s). length s)"
    by simp
qed

text \<open>The two filters applied to the repository text, in the order of the source.\<close>

definition stripPackageLock :: "npmrc_env \<Rightarrow> string \<Rightarrow> string" where
  "stripPackageLock env repoNpmrc =
     (if str_includes repoNpmrc ''package-lock''
      then replacePackageLock (regexDot env) True repoNpmrc else repoNpmrc)"

definition stripVariables :: "npmrc_env \<Rightarrow> string \<Rightarrow> string" where
  "stripVariables env repoNpmrc =
     (if str_includes repoNpmrc ''=${'' \<and> \<not> exposeAllEnv env
      then join [LF]
             (filter (\<lambda>line. \<not> str_includes line ''=${'') (splitNewline env repoNpmrc))
      else repoNpmrc)"

text \<open>\<open>npmrc = config.npmrc ?? ''\<close>, ended by a line feed when it is not empty.\<close>

definition callerPrefix :: "string option \<Rightarrow> string" where
  "callerPrefix c =
     (let npmrc = (case c of None \<Rightarrow> [] | Some s \<Rightarrow> s) in
      if length npmrc \<noteq> 0 then (if \<not> endsWith npmrc [LF] then npmrc @ [LF] else npmrc)
      else npmrc)"

definition resolveNpmrc :: "npmrc_env \<Rightarrow> string \<Rightarrow> npmrc_config \<Rightarrow> NpmrcResult" where
  "resolveNpmrc env packageFile config =
     (let fileName = findLocalSiblingOrParent env packageFile ''.npmrc'' in
      if truthy fileName then
        (case readLocalFile env (the fileName) of
           Some repoNpmrc \<Rightarrow>
             if isString (config_npmrc config) \<and> config_npmrcMerge config \<noteq> Some True
             then \<lparr>npmrc = config_npmrc config, npmrcFileName = fileName\<rparr>
             else \<lparr>npmrc = Some (callerPrefix (config_npmrc config)
                                  @ stripVariables env (stripPackageLock env repoNpmrc)),
                   npmrcFileName = fileName\<rparr>
         | None \<Rightarrow> \<lparr>npmrc = None, npmrcFileName = fileName\<rparr>)
      else if isString (config_npmrc config)
        then \<lparr>npmrc = config_npmrc config, npmrcFileName = fileName\<rparr>
        else \<lparr>npmrc = None, npmrcFileName = fileName\<rparr>)"

text \<open>
  Notions used to state what the filters keep: the lines of a text, separated by line
  feeds, and the lines that are not empty and do not start with \<open>package-lock\<close>.
\<close>

fun linesOf :: "string \<Rightarrow> string list" where
  "linesOf [] = [[]]"
| "linesOf (c # cs) =
     (if c = LF then [] # linesOf cs
      else (case linesOf cs of l # ls \<Rightarrow> (c # l) # ls | [] \<Rightarrow> [[c]]))"

definition otherSetting :: "string \<Rightarrow> bool" where
  "otherSetting line = (line \<noteq> [] \<and> \<not> startsWith line ''package-lock'')"

section \<open>Registry configuration: scoped registries of the upgrades\<close>

text \<open>
  An upgrade, as far as this code reads it: \<open>depName?: string\<close> and
  \<open>registryUrls?: string[] | null\<close>. \<open>updateArtifacts\<close> below reads the same two fields of
  its \<open>updatedDeps\<close>.
\<close>

record Upgrade =
  depName :: "string option"
  registryUrls :: "string list option"

text \<open>\<open>upgrade.registryUrls?.[0]\<close>\<close>

definition firstRegistryUrl :: "Upgrade \<Rightarrow> string option" where
  "firstRegistryUrl upgrade =
     (case registryUrls upgrade of
        None \<Rightarrow> None
      | Some [] \<Rightarrow> None
      | Some (u # us) \<Rightarrow> Some u)"

text \<open>\<open>depName.split('/')[0]\<close>: the text before the first slash.\<close>

definition splitSlashFirst :: "string \<Rightarrow> string" where
  "splitSlashFirst s = takeWhile (\<lambda>c. c \<noteq> CHR ''/'') s"

text \<open>
  The loop of \<open>getRegistryNpmrcLines\<close>, with its two mutable locals: the set
  \<open>seenScopes\<close> and the array \<open>lines\<close>.
\<close>

fun npmrcLinesLoop :: "string set \<Rightarrow> string list \<Rightarrow> Upgrade list \<Rightarrow> string list" where
  "npmrcLinesLoop seenScopes lines [] = lines"
| "npmrcLinesLoop seenScopes lines (upgrade # upgrades) =
     (let registryUrl = firstRegistryUrl upgrade in
      if \<not> isNonEmptyString registryUrl \<or> \<not> isNonEmptyString (depName upgrade)
        then npmrcLinesLoop seenScopes lines upgrades
      else if \<not> startsWith (the (depName upgrade)) ''@''
        then npmrcLinesLoop seenScopes lines upgrades
      else
        (let scope = splitSlashFirst (the (depName upgrade)) in
         if scope \<in> seenScopes then npmrcLinesLoop seenScopes lines upgrades
         else npmrcLinesLoop (insert scope seenScopes)
                (lines @ [scope @ '':registry='' @ the registryUrl]) upgrades))"

definition getRegistryNpmrcLines :: "Upgrade list \<Rightarrow> string list" where
  "getRegistryNpmrcLines upgrades = npmrcLinesLoop {} [] upgrades"

text \<open>
  \<open>getRegistryYarnrcScopes\<close> collects into a plain object created by \<open>{}\<close>. The object is
  the list of its own properties in insertion order. The test \<open>scope in scopes\<close> is
  JavaScript's \<open>in\<close> operator: it holds for an own property and also for a property
  inherited from \<open>Object.prototype\<close>, whose property names are listed here.
\<close>

record NpmScope =
  npmRegistryServer :: string

record YarnrcNpmScopes =
  npmScopes :: "(string \<times> NpmScope) list"

definition objectPrototypeKeys :: "string list" where
  "objectPrototypeKeys =
     [''constructor'', ''hasOwnProperty'', ''isPrototypeOf'', ''propertyIsEnumerable'',
      ''toLocaleString'', ''toString'', ''valueOf'', ''__proto__'',
      ''__defineGetter__'', ''__defineSetter__'', ''__lookupGetter__'',
      ''__lookupSetter__'']"

definition js_in :: "string \<Rightarrow> (string \<times> 'v) list \<Rightarrow> bool" where
  "js_in key obj = (key \<in> set (map fst obj) \<or> key \<in> set objectPrototypeKeys)"

fun yarnrcScopesLoop ::
  "(string \<times> NpmScope) list \<Rightarrow> Upgrade list \<Rightarrow> (string \<times> NpmScope) list" where
  "yarnrcScopesLoop scopes [] = scopes"
| "yarnrcScopesLoop scopes (upgrade # upgrades) =
     (let registryUrl = firstRegistryUrl upgrade in
      if \<not> isNonEmptyString registryUrl \<or> \<not> isNonEmptyString (depName upgrade)
        then yarnrcScopesLoop scopes upgrades
      else if \<not> startsWith (the (depName upgrade)) ''@''
        then yarnrcScopesLoop scopes upgrades
      else
        (let scope = drop 1 (splitSlashFirst (the (depName upgrade))) in
         if js_in scope scopes then yarnrcScopesLoop scopes upgrades
         else yarnrcScopesLoop
                (scopes @ [(scope, \<lparr>npmRegistryServer = the registryUrl\<rparr>)]) upgrades))"

definition getRegistryYarnrcScopes :: "Upgrade list \<Rightarrow> YarnrcNpmScopes option" where
  "getRegistryYarnrcScopes upgrades =
     (let scopes = yarnrcScopesLoop [] upgrades in
      if length scopes = 0 then None else Some \<lparr>npmScopes = scopes\<rparr>)"

text \<open>
  Notions read off the two loops, used to state what they compute. An upgrade passes the
  guards of the loop body when its first registry URL and its dependency name are
  non-empty strings and the name starts with the sigil; it then contributes the pair of
  its scope (with the sigil) and its first registry URL. A pair is rendered as a line of
  the line form, and as an entry of the map form.
\<close>

definition scopedUpgrade :: "Upgrade \<Rightarrow> bool" where
  "scopedUpgrade upgrade =
     (isNonEmptyString (firstRegistryUrl upgrade) \<and> isNonEmptyString (depName upgrade) \<and>
      startsWith (the (depName upgrade)) ''@'')"

definition scopeRegistryPairs :: "Upgrade list \<Rightarrow> (string \<times> string) list" where
  "scopeRegistryPairs upgrades =
     map (\<lambda>u. (splitSlashFirst (the (depName u)), the (firstRegistryUrl u)))
       (filter scopedUpgrade upgrades)"

definition registryLine :: "string \<times> string \<Rightarrow> string" where
  "registryLine p = fst p @ '':registry='' @ snd p"

definition yarnScope :: "string \<times> string \<Rightarrow> string \<times> NpmScope" where
  "yarnScope p = (drop 1 (fst p), \<lparr>npmRegistryServer = snd p\<rparr>)"

section \<open>Lock file reconciliation: \<open>updateArtifacts\<close> of the NuGet manager\<close>

subsection \<open>Data\<close>

text \<open>An element of the list that \<open>getDependentPackageFiles\<close> returns.\<close>

record DependentFile =
  name :: string
  isLeaf :: bool

text \<open>A registry; the code reads its \<open>url\<close> only and passes the object on.\<close>

record Registry =
  url :: string
  registryName :: "string option"

record ToolConstraint =
  toolName :: string
  constraint :: "string option"

record ExecOptions =
  docker :: "(string \<times> string) list"
  extraEnv :: "(string \<times> string) list"
  toolConstraints :: "ToolConstraint list"

text \<open>
  The configuration fields that are read: \<open>config.constraints?.dotnet\<close>,
  \<open>config.postUpdateOptions\<close> and \<open>config.isLockFileMaintenance\<close>.
\<close>

record UpdateArtifactsConfig =
  constraints_dotnet :: "string option"
  postUpdateOptions :: "string list option"
  isLockFileMaintenance :: "bool option"

record UpdateArtifact =
  packageFileName :: string
  newPackageFileContent :: string
  config :: UpdateArtifactsConfig
  updatedDeps :: "Upgrade list"

text \<open>
  An element of the result: \<open>{ file: { type: 'addition', path, contents } }\<close> or
  \<open>{ artifactError: { lockFile, stderr } }\<close>.
\<close>

datatype UpdateArtifactsResult =
  Addition (path: string) (contents: string)
| ArtifactError (lockFile: string) (stderr: string)

text \<open>A thrown failure: its \<open>message\<close> and, for a failed command, its captured \<open>stdout\<close>.\<close>

record js_error =
  message :: string
  stdout :: "string option"

text \<open>
  The calls that change something outside the function, in the order they are made. A
  call that throws is recorded too: it was made.
\<close>

datatype event =
  WriteLocalFile string string
| EnsureDir string
| OutputCacheFile string string
| Exec "string list" ExecOptions

text \<open>
  The collaborators, as parameters: the constants of \<open>package-tree\<close> and
  \<open>constants/error-messages\<close>, the dependent file lookup, the helpers of \<open>util/fs\<close>,
  \<open>util/git\<close> and \<open>util/exec\<close>, the registry helpers of \<open>util\<close> and \<open>config-formatter\<close>,
  and the libraries \<open>upath\<close> and \<open>shlex\<close>. A call that may throw returns the failure
  (\<open>Some\<close>) or succeeds (\<open>None\<close>). \<open>gitFileContent\<close> is the content of a file in the
  repository before the run, \<open>localFileContent\<close> the content of a local file when
  \<open>getLocalFiles\<close> reads it after the toolchain has run.
\<close>

record nuget_env =
  NUGET_CENTRAL_FILE :: string
  MSBUILD_CENTRAL_FILE :: string
  GLOBAL_JSON :: string
  TEMPORARY_ERROR :: string
  getDependentPackageFiles :: "string \<Rightarrow> bool \<Rightarrow> bool \<Rightarrow> DependentFile list"
  getSiblingFileName :: "string \<Rightarrow> string \<Rightarrow> string"
  gitFileContent :: "string \<Rightarrow> string option"
  localFileContent :: "string \<Rightarrow> string option"
  writeLocalFile :: "string \<Rightarrow> string \<Rightarrow> js_error option"
  privateCacheDir :: string
  upath_join :: "string \<Rightarrow> string \<Rightarrow> string"
  quote :: "string \<Rightarrow> string"
  getConfiguredRegistries :: "string \<Rightarrow> Registry list option"
  getDefaultRegistries :: "Registry list"
  createNuGetConfigXml :: "Registry list \<Rightarrow> string"
  ensureDir :: "string \<Rightarrow> js_error option"
  outputCacheFile :: "string \<Rightarrow> string \<Rightarrow> js_error option"
  findGlobalJsonSdkVersion :: "string \<Rightarrow> string option"
  exec :: "string list \<Rightarrow> ExecOptions \<Rightarrow> js_error option"

text \<open>
  Modelled from the spec: \<open>getFiles\<close> of \<open>util/git\<close> and \<open>getLocalFiles\<close> of \<open>util/fs\<close> are
  not among the sources. Each reads the named files in one batch and returns the mapping
  from every name to its content, or to null when the file is absent.
\<close>

definition getFiles :: "nuget_env \<Rightarrow> string list \<Rightarrow> (string \<Rightarrow> string option)" where
  "getFiles env names = (\<lambda>n. if n \<in> set names then gitFileContent env n else None)"

definition getLocalFiles :: "nuget_env \<Rightarrow> string list \<Rightarrow> (string \<Rightarrow> string option)" where
  "getLocalFiles env names = (\<lambda>n. if n \<in> set names then localFileContent env n else None)"

subsection \<open>The isolated registry configuration\<close>

text \<open>The two loops of \<open>createCachedNuGetConfigFile\<close> over \<open>urlSet\<close> and \<open>combinedRegistries\<close>.\<close>

fun addConfigured ::
  "string set \<Rightarrow> Registry list \<Rightarrow> Registry list \<Rightarrow> string set \<times> Registry list" where
  "addConfigured urlSet combined [] = (urlSet, combined)"
| "addConfigured urlSet combined (r # rs) =
     (if url r \<noteq> [] \<and> url r \<notin> urlSet
      then addConfigured (insert (url r) urlSet) (combined @ [r]) rs
      else addConfigured urlSet combined rs)"

fun addAdditional ::
  "string set \<Rightarrow> Registry list \<Rightarrow> string list \<Rightarrow> string set \<times> Registry list" where
  "addAdditional urlSet combined [] = (urlSet, combined)"
| "addAdditional urlSet combined (u # us) =
     (if u = [] then addAdditional urlSet combined us
      else if u \<notin> urlSet
      then addAdditional (insert u urlSet)
             (combined @ [\<lparr>url = u, registryName = None\<rparr>]) us
      else addAdditional urlSet combined us)"

definition createCachedNuGetConfigFile ::
  "nuget_env \<Rightarrow> string \<Rightarrow> string \<Rightarrow> string list \<Rightarrow> (js_error + string) \<times> event list" where
  "createCachedNuGetConfigFile env nugetCacheDir pkgFileName additionalRegistryUrls =
     (let configuredRegistries =
            (case getConfiguredRegistries env pkgFileName of
               Some rs \<Rightarrow> rs | None \<Rightarrow> getDefaultRegistries env);
          (urlSet, combined) = addConfigured {} [] configuredRegistries;
          (urlSet', combinedRegistries) = addAdditional urlSet combined additionalRegistryUrls;
          contents = createNuGetConfigXml env combinedRegistries;
          cachedNugetConfigFile = upath_join env nugetCacheDir ''nuget.config''
      in case ensureDir env nugetCacheDir of
           Some err \<Rightarrow> (Inl err, [EnsureDir nugetCacheDir])
         | None \<Rightarrow>
             (case outputCacheFile env cachedNugetConfigFile contents of
                Some err \<Rightarrow>
                  (Inl err, [EnsureDir nugetCacheDir,
                             OutputCacheFile cachedNugetConfigFile contents])
              | None \<Rightarrow>
                  (Inr cachedNugetConfigFile,
                   [EnsureDir nugetCacheDir,
                    OutputCacheFile cachedNugetConfigFile contents])))"

subsection \<open>The toolchain commands\<close>

definition restoreCommand :: "nuget_env \<Rightarrow> string \<Rightarrow> string \<Rightarrow> string" where
  "restoreCommand env nugetConfigFile fileName =
     ''dotnet restore '' @ quote env fileName
       @ '' --force-evaluate --configfile '' @ quote env nugetConfigFile"

definition workloadRestoreCommand :: "nuget_env \<Rightarrow> string \<Rightarrow> string" where
  "workloadRestoreCommand env nugetConfigFile =
     ''dotnet workload restore --configfile '' @ quote env nugetConfigFile"

definition restoreCommands ::
  "nuget_env \<Rightarrow> string \<Rightarrow> string list \<Rightarrow> UpdateArtifactsConfig \<Rightarrow> string list" where
  "restoreCommands env nugetConfigFile dependentPackageFileNames cfg =
     (let cmds = map (restoreCommand env nugetConfigFile) dependentPackageFileNames in
      if (case postUpdateOptions cfg of
            None \<Rightarrow> False | Some opts \<Rightarrow> ''dotnetWorkloadRestore'' \<in> set opts)
      then workloadRestoreCommand env nugetConfigFile # cmds
      else cmds)"

definition restoreExecOptions ::
  "nuget_env \<Rightarrow> string \<Rightarrow> string \<Rightarrow> UpdateArtifactsConfig \<Rightarrow> ExecOptions" where
  "restoreExecOptions env nugetCacheDir pkgFileName cfg =
     (let dotnetVersion =
            (case constraints_dotnet cfg of
               Some v \<Rightarrow> Some v | None \<Rightarrow> findGlobalJsonSdkVersion env pkgFileName)
      in \<lparr>docker = [],
          extraEnv = [(''NUGET_PACKAGES'', upath_join env nugetCacheDir ''packages''),
                      (''MSBUILDDISABLENODEREUSE'', ''1'')],
          toolConstraints = [\<lparr>toolName = ''dotnet'', constraint = dotnetVersion\<rparr>]\<rparr>)"

definition runDotnetRestore ::
  "nuget_env \<Rightarrow> string \<Rightarrow> string list \<Rightarrow> UpdateArtifactsConfig \<Rightarrow> string list
     \<Rightarrow> js_error option \<times> event list" where
  "runDotnetRestore env pkgFileName dependentPackageFileNames cfg additionalRegistryUrls =
     (let nugetCacheDir = upath_join env (privateCacheDir env) ''nuget'' in
      case createCachedNuGetConfigFile env nugetCacheDir pkgFileName additionalRegistryUrls of
        (Inl err, evs) \<Rightarrow> (Some err, evs)
      | (Inr nugetConfigFile, evs) \<Rightarrow>
          (let execOptions = restoreExecOptions env nugetCacheDir pkgFileName cfg;
               cmds = restoreCommands env nugetConfigFile dependentPackageFileNames cfg
           in (exec env cmds execOptions, evs @ [Exec cmds execOptions])))"

subsection \<open>\<open>updateArtifacts\<close>\<close>

text \<open>\<open>Array.from(new Set(xs))\<close>: the elements of \<open>xs\<close> in order, each at its first place.\<close>

fun setToArray :: "string set \<Rightarrow> string list \<Rightarrow> string list" where
  "setToArray seen [] = []"
| "setToArray seen (x # xs) =
     (if x \<in> seen then setToArray seen xs else x # setToArray (insert x seen) xs)"

definition combinedRegistryUrls :: "Upgrade list \<Rightarrow> string list" where
  "combinedRegistryUrls deps =
     setToArray {}
       (concat (map (\<lambda>d. case registryUrls d of None \<Rightarrow> [] | Some us \<Rightarrow> us) deps))"

definition isCentralManagement :: "nuget_env \<Rightarrow> string \<Rightarrow> bool" where
  "isCentralManagement env pkgFileName =
     (pkgFileName = NUGET_CENTRAL_FILE env \<or>
      pkgFileName = MSBUILD_CENTRAL_FILE env \<or>
      endsWith pkgFileName (''/'' @ NUGET_CENTRAL_FILE env) \<or>
      endsWith pkgFileName (''/'' @ MSBUILD_CENTRAL_FILE env))"

definition isGlobalJson :: "nuget_env \<Rightarrow> string \<Rightarrow> bool" where
  "isGlobalJson env pkgFileName = (pkgFileName = GLOBAL_JSON env)"

text \<open>
  \<open>regEx(/(?:cs|vb|fs)proj$/i).test(packageFileName)\<close>: the name ends in one of the three
  extensions, whatever the case of its ASCII letters.
\<close>

definition asciiLower :: "char \<Rightarrow> char" where
  "asciiLower c =
     (case map_of (zip ''ABCDEFGHIJKLMNOPQRSTUVWXYZ'' ''abcdefghijklmnopqrstuvwxyz'') c of
        Some l \<Rightarrow> l | None \<Rightarrow> c)"

definition isProjectFile :: "string \<Rightarrow> bool" where
  "isProjectFile pkgFileName =
     (let l = map asciiLower pkgFileName in
      endsWith l ''csproj'' \<or> endsWith l ''vbproj'' \<or> endsWith l ''fsproj'')"

definition dependentFiles :: "nuget_env \<Rightarrow> UpdateArtifact \<Rightarrow> DependentFile list" where
  "dependentFiles env req =
     getDependentPackageFiles env (packageFileName req)
       (isCentralManagement env (packageFileName req))
       (isGlobalJson env (packageFileName req))"

definition packageFiles :: "nuget_env \<Rightarrow> UpdateArtifact \<Rightarrow> string list" where
  "packageFiles env req = map name (filter isLeaf (dependentFiles env req))"

definition lockFileNames :: "nuget_env \<Rightarrow> UpdateArtifact \<Rightarrow> string list" where
  "lockFileNames env req =
     map (\<lambda>f. getSiblingFileName env (name f) ''packages.lock.json'')
       (dependentFiles env req)"

text \<open>\<open>Object.values(existingLockFileContentMap).some((val) => !!val)\<close>\<close>

definition hasLockFileContent :: "nuget_env \<Rightarrow> UpdateArtifact \<Rightarrow> bool" where
  "hasLockFileContent env req =
     (\<exists>n \<in> set (lockFileNames env req).
        truthy (getFiles env (lockFileNames env req) n))"

text \<open>The loop that compares the two snapshots, with its local \<open>retArray\<close>.\<close>

fun diffLoop ::
  "(string \<Rightarrow> string option) \<Rightarrow> (string \<Rightarrow> string option) \<Rightarrow>
     UpdateArtifactsResult list \<Rightarrow> string list \<Rightarrow> UpdateArtifactsResult list" where
  "diffLoop existing new retArray [] = retArray"
| "diffLoop existing new retArray (lockFileName # rest) =
     (if existing lockFileName = new lockFileName
        then diffLoop existing new retArray rest
      else if truthy (new lockFileName)
        then diffLoop existing new
               (retArray @ [Addition lockFileName (the (new lockFileName))]) rest
      else diffLoop existing new retArray rest)"

text \<open>
  The body of the \<open>try\<close> block: \<open>Inl\<close> is a failure thrown inside it, \<open>Inr\<close> the value it
  returns.
\<close>

definition tryBlock ::
  "nuget_env \<Rightarrow> UpdateArtifact \<Rightarrow>
     (js_error + UpdateArtifactsResult list option) \<times> event list" where
  "tryBlock env req =
     (if length (updatedDeps req) = 0 \<and> isLockFileMaintenance (config req) \<noteq> Some True
      then (Inr None, [])
      else
        (case writeLocalFile env (packageFileName req) (newPackageFileContent req) of
           Some err \<Rightarrow>
             (Inl err, [WriteLocalFile (packageFileName req) (newPackageFileContent req)])
         | None \<Rightarrow>
             (case runDotnetRestore env (packageFileName req) (packageFiles env req)
                     (config req) (combinedRegistryUrls (updatedDeps req)) of
                (Some err, evs) \<Rightarrow>
                  (Inl err,
                   WriteLocalFile (packageFileName req) (newPackageFileContent req) # evs)
              | (None, evs) \<Rightarrow>
                  (let newLockFileContentMap = getLocalFiles env (lockFileNames env req);
                       retArray = diffLoop (getFiles env (lockFileNames env req))
                                    newLockFileContentMap [] (lockFileNames env req)
                   in (Inr (if length retArray > 0 then Some retArray else None),
                       WriteLocalFile (packageFileName req) (newPackageFileContent req)
                         # evs)))))"

text \<open>The \<open>catch\<close> block.\<close>

definition catchBlock ::
  "nuget_env \<Rightarrow> UpdateArtifact \<Rightarrow> js_error \<Rightarrow> js_error + UpdateArtifactsResult list option"
  where
  "catchBlock env req err =
     (if message err = TEMPORARY_ERROR env then Inl err
      else Inr (Some [ArtifactError (join '', '' (lockFileNames env req))
                        (case stdout err of Some out \<Rightarrow> out | None \<Rightarrow> message err)]))"

text \<open>
  The function: the value it returns (\<open>Inr\<close>, with \<open>None\<close> for null) or the failure it
  throws (\<open>Inl\<close>), and the calls it made.
\<close>

definition updateArtifacts ::
  "nuget_env \<Rightarrow> UpdateArtifact \<Rightarrow>
     (js_error + UpdateArtifactsResult list option) \<times> event list" where
  "updateArtifacts env req =
     (if \<not> isCentralManagement env (packageFileName req) \<and>
         \<not> isGlobalJson env (packageFileName req) \<and>
         \<not> isProjectFile (packageFileName req)
      then (Inr None, [])
      else if \<not> hasLockFileContent env req then (Inr None, [])
      else
        (case tryBlock env req of
           (Inl err, evs) \<Rightarrow> (catchBlock env req err, evs)
         | (Inr res, evs) \<Rightarrow> (Inr res, evs)))"

text \<open>The entries of a returned value: none for null.\<close>

definition resultEntries :: "UpdateArtifactsResult list option \<Rightarrow> UpdateArtifactsResult list" where
  "resultEntries res = (case res of None \<Rightarrow> [] | Some xs \<Rightarrow> xs)"

section \<open>Concrete environments\<close>

text \<open>
  Environments for the concrete runs below. For \<open>resolveNpmrc\<close>: the search finds
  \<open>found\<close>, every read returns \<open>content\<close>, and the expressions are built with RE2,
  whose dot matches every character but the line feed.
\<close>

definition npmrcEnv :: "string option \<Rightarrow> string option \<Rightarrow> bool \<Rightarrow> npmrc_env" where
  "npmrcEnv found content expose =
     \<lparr>findLocalSiblingOrParent = (\<lambda>packageFile configFile. found),
      readLocalFile = (\<lambda>fileName. content),
      exposeAllEnv = expose,
      splitNewline = splitLines,
      regexDot = (\<lambda>c. c \<noteq> LF)\<rparr>"

text \<open>
  For \<open>updateArtifacts\<close>: the sibling of a file is the named file in the same directory,
  paths are joined with a slash, quoting leaves a word as it is, no registry is
  configured, and the constants have the values of the NuGet documentation. The
  dependent files, the two snapshots and the outcomes of the manifest write and of the
  toolchain run are the arguments.
\<close>

definition siblingFileName :: "string \<Rightarrow> string \<Rightarrow> string" where
  "siblingFileName fileName otherFileName =
     rev (dropWhile (\<lambda>c. c \<noteq> CHR ''/'') (rev fileName)) @ otherFileName"

definition nugetEnv ::
  "DependentFile list \<Rightarrow> (string \<Rightarrow> string option) \<Rightarrow> (string \<Rightarrow> string option) \<Rightarrow>
     js_error option \<Rightarrow> js_error option \<Rightarrow> nuget_env" where
  "nugetEnv deps beforeContent afterContent writeOutcome execOutcome =
     \<lparr>NUGET_CENTRAL_FILE = ''Directory.Packages.props'',
      MSBUILD_CENTRAL_FILE = ''Packages.props'',
      GLOBAL_JSON = ''global.json'',
      TEMPORARY_ERROR = ''temporary-error'',
      getDependentPackageFiles = (\<lambda>pkgFileName central globalJson. deps),
      getSiblingFileName = siblingFileName,
      gitFileContent = beforeContent,
      localFileContent = afterContent,
      writeLocalFile = (\<lambda>fileName fileContent. writeOutcome),
      privateCacheDir = ''/cache'',
      upath_join = (\<lambda>a b. a @ ''/'' @ b),
      quote = (\<lambda>w. w),
      getConfiguredRegistries = (\<lambda>pkgFileName. None),
      getDefaultRegistries = [\<lparr>url = ''https://api.nuget.org/v3/index.json'',
                                registryName = Some ''nuget.org''\<rparr>],
      createNuGetConfigXml = (\<lambda>registries. concat (map url registries)),
      ensureDir = (\<lambda>dir. None),
      outputCacheFile = (\<lambda>fileName fileContent. None),
      findGlobalJsonSdkVersion = (\<lambda>pkgFileName. None),
      exec = (\<lambda>cmds opts. execOutcome)\<rparr>"

definition nugetRequest :: "string \<Rightarrow> Upgrade list \<Rightarrow> UpdateArtifact" where
  "nugetRequest pkgFileName deps =
     \<lparr>packageFileName = pkgFileName,
      newPackageFileContent = ''<Project />'',
      config = \<lparr>constraints_dotnet = None, postUpdateOptions = None,
                 isLockFileMaintenance = None\<rparr>,
      updatedDeps = deps\<rparr>"

section \<open>Properties of \<open>resolveNpmrc\<close>\<close>

text \<open>
  C5. Idempotence on merged output: when the search finds no repository config file,
  \<open>resolveNpmrc\<close> called with the caller config text \<open>t\<close> returns exactly \<open>t\<close> as the
  resolved text, with provenance null, whatever the merge flag is.
\<close>

theorem resolveNpmrc_no_repository_file:
  "findLocalSiblingOrParent env packageFile ''.npmrc'' = None \<Longrightarrow>
   resolveNpmrc env packageFile \<lparr>config_npmrc = Some t, config_npmrcMerge = m\<rparr>
     = \<lparr>npmrc = Some t, npmrcFileName = None\<rparr>"
  by (simp add: resolveNpmrc_def truthy_def isString_def)

theorem resolveNpmrc_no_repository_file_witness:
  "findLocalSiblingOrParent (npmrcEnv None None False) ''package.json'' ''.npmrc'' = None \<and>
   resolveNpmrc (npmrcEnv None None False) ''package.json''
       \<lparr>config_npmrc = Some ''a=1\<newline>b=${X}\<newline>'', config_npmrcMerge = Some True\<rparr>
     = \<lparr>npmrc = Some ''a=1\<newline>b=${X}\<newline>'', npmrcFileName = None\<rparr>"
  using resolveNpmrc_no_repository_file
          [of "npmrcEnv None None False" "''package.json''" "''a=1\<newline>b=${X}\<newline>''" "Some True"]
  by (simp add: npmrcEnv_def)

text \<open>
  C9. When a repository config file is found but reading it yields no string, the
  resolved text is undefined, whatever the caller supplied as config text, and the
  provenance is the name of the found file.
\<close>

theorem resolveNpmrc_unreadable_repository_file:
  "findLocalSiblingOrParent env packageFile ''.npmrc'' = Some f \<Longrightarrow> f \<noteq> [] \<Longrightarrow>
   readLocalFile env f = None \<Longrightarrow>
   resolveNpmrc env packageFile cfg = \<lparr>npmrc = None, npmrcFileName = Some f\<rparr>"
  by (simp add: resolveNpmrc_def truthy_def)

theorem resolveNpmrc_unreadable_repository_file_witness:
  "findLocalSiblingOrParent (npmrcEnv (Some ''.npmrc'') None False) ''package.json'' ''.npmrc''
     = Some ''.npmrc'' \<and> ''.npmrc'' \<noteq> [] \<and>
   readLocalFile (npmrcEnv (Some ''.npmrc'') None False) ''.npmrc'' = None \<and>
   resolveNpmrc (npmrcEnv (Some ''.npmrc'') None False) ''package.json''
       \<lparr>config_npmrc = Some ''registry=https://r/'', config_npmrcMerge = None\<rparr>
     = \<lparr>npmrc = None, npmrcFileName = Some ''.npmrc''\<rparr>"
  using resolveNpmrc_unreadable_repository_file
          [of "npmrcEnv (Some ''.npmrc'') None False" "''package.json''" "''.npmrc''"
              "\<lparr>config_npmrc = Some ''registry=https://r/'', config_npmrcMerge = None\<rparr>"]
  by (simp add: npmrcEnv_def)

section \<open>Properties of \<open>updateArtifacts\<close>\<close>

text \<open>
  C7. When no watched lock file has content in the snapshot taken before the run, the
  result is null and no call that writes was made: the manifest is not written, the
  registry configuration is not written and the toolchain is not run.
\<close>

theorem updateArtifacts_no_lock_file_content:
  "\<forall>n \<in> set (lockFileNames env req). \<not> truthy (getFiles env (lockFileNames env req) n) \<Longrightarrow>
   updateArtifacts env req = (Inr None, [])"
  by (simp add: updateArtifacts_def hasLockFileContent_def)

theorem updateArtifacts_no_lock_file_content_witness:
  "lockFileNames (nugetEnv [\<lparr>name = ''app.csproj'', isLeaf = True\<rparr>] (\<lambda>n. None) (\<lambda>n. None) None None)
      (nugetRequest ''app.csproj'' [\<lparr>depName = Some ''Newtonsoft.Json'', registryUrls = None\<rparr>])
     = [''packages.lock.json''] \<and>
   getFiles (nugetEnv [\<lparr>name = ''app.csproj'', isLeaf = True\<rparr>] (\<lambda>n. None) (\<lambda>n. None) None None)
      [''packages.lock.json''] ''packages.lock.json'' = None \<and>
   updateArtifacts (nugetEnv [\<lparr>name = ''app.csproj'', isLeaf = True\<rparr>] (\<lambda>n. None) (\<lambda>n. None) None None)
      (nugetRequest ''app.csproj'' [\<lparr>depName = Some ''Newtonsoft.Json'', registryUrls = None\<rparr>])
     = (Inr None, [])"
  using updateArtifacts_no_lock_file_content
          [of "nugetEnv [\<lparr>name = ''app.csproj'', isLeaf = True\<rparr>] (\<lambda>n. None) (\<lambda>n. None) None None"
              "nugetRequest ''app.csproj'' [\<lparr>depName = Some ''Newtonsoft.Json'', registryUrls = None\<rparr>]"]
  by (simp add: lockFileNames_def dependentFiles_def getFiles_def truthy_def nugetEnv_def
        siblingFileName_def)

text \<open>
  C1. Failure classification. In a run that passes the gates and in which the manifest
  write throws, or the manifest write succeeds and the toolchain run throws: a failure
  whose message is the temporary failure marker is thrown again unchanged; any other
  failure gives exactly one \<open>ArtifactError\<close>, whose \<open>lockFile\<close> is the watched lock file
  names joined by a comma and a space and whose \<open>stderr\<close> is the captured \<open>stdout\<close> of the
  failure, or its message when nothing was captured.
\<close>

theorem updateArtifacts_failure_classification:
  assumes "isCentralManagement env (packageFileName req) \<or> isGlobalJson env (packageFileName req)
             \<or> isProjectFile (packageFileName req)"
    and "hasLockFileContent env req"
    and "updatedDeps req \<noteq> [] \<or> isLockFileMaintenance (config req) = Some True"
    and "writeLocalFile env (packageFileName req) (newPackageFileContent req) = Some err \<or>
         (writeLocalFile env (packageFileName req) (newPackageFileContent req) = None \<and>
          fst (runDotnetRestore env (packageFileName req) (packageFiles env req) (config req)
                 (combinedRegistryUrls (updatedDeps req))) = Some err)"
  shows "fst (updateArtifacts env req) =
           (if message err = TEMPORARY_ERROR env then Inl err
            else Inr (Some [ArtifactError (join '', '' (lockFileNames env req))
                              (case stdout err of Some out \<Rightarrow> out | None \<Rightarrow> message err)]))"
proof -
  have t: "fst (tryBlock env req) = Inl err"
    using assms(3,4) by (auto simp: tryBlock_def split: option.splits prod.splits)
  obtain evs where "tryBlock env req = (Inl err, evs)"
    using t by (cases "tryBlock env req") auto
  then show ?thesis
    using assms(1,2) by (simp add: updateArtifacts_def catchBlock_def)
qed

theorem updateArtifacts_failure_classification_witness:
  "fst (updateArtifacts
          (nugetEnv [\<lparr>name = ''app.csproj'', isLeaf = True\<rparr>] (\<lambda>n. Some ''{}'') (\<lambda>n. Some ''{}'')
             None (Some \<lparr>message = ''Command failed'', stdout = Some ''error NU1101''\<rparr>))
          (nugetRequest ''app.csproj'' [\<lparr>depName = Some ''Newtonsoft.Json'', registryUrls = None\<rparr>]))
     = Inr (Some [ArtifactError ''packages.lock.json'' ''error NU1101'']) \<and>
   fst (updateArtifacts
          (nugetEnv [\<lparr>name = ''app.csproj'', isLeaf = True\<rparr>] (\<lambda>n. Some ''{}'') (\<lambda>n. Some ''{}'')
             (Some \<lparr>message = ''temporary-error'', stdout = None\<rparr>) None)
          (nugetRequest ''app.csproj'' [\<lparr>depName = Some ''Newtonsoft.Json'', registryUrls = None\<rparr>]))
     = Inl \<lparr>message = ''temporary-error'', stdout = None\<rparr>"
proof -
  let ?deps = "[\<lparr>name = ''app.csproj'', isLeaf = True\<rparr>]"
  let ?R = "nugetRequest ''app.csproj'' [\<lparr>depName = Some ''Newtonsoft.Json'', registryUrls = None\<rparr>]"
  let ?e1 = "\<lparr>message = ''Command failed'', stdout = Some ''error NU1101''\<rparr>"
  let ?e2 = "\<lparr>message = ''temporary-error'', stdout = None\<rparr>"
  let ?E1 = "nugetEnv ?deps (\<lambda>n. Some ''{}'') (\<lambda>n. Some ''{}'') None (Some ?e1)"
  let ?E2 = "nugetEnv ?deps (\<lambda>n. Some ''{}'') (\<lambda>n. Some ''{}'') (Some ?e2) None"
  have gate: "isCentralManagement E (packageFileName ?R) \<or> isGlobalJson E (packageFileName ?R)
                \<or> isProjectFile (packageFileName ?R)" for E
    by (simp add: isProjectFile_def asciiLower_def endsWith_def nugetRequest_def)
  have deps: "updatedDeps ?R \<noteq> [] \<or> isLockFileMaintenance (config ?R) = Some True"
    by (simp add: nugetRequest_def)
  have names1: "lockFileNames ?E1 ?R = [''packages.lock.json'']"
    by (simp add: lockFileNames_def dependentFiles_def nugetEnv_def siblingFileName_def)
  have names2: "lockFileNames ?E2 ?R = [''packages.lock.json'']"
    by (simp add: lockFileNames_def dependentFiles_def nugetEnv_def siblingFileName_def)
  have has1: "hasLockFileContent ?E1 ?R"
    unfolding hasLockFileContent_def names1
    by (simp add: getFiles_def truthy_def nugetEnv_def)
  have has2: "hasLockFileContent ?E2 ?R"
    unfolding hasLockFileContent_def names2
    by (simp add: getFiles_def truthy_def nugetEnv_def)
  have throw1:
    "writeLocalFile ?E1 (packageFileName ?R) (newPackageFileContent ?R) = Some ?e1 \<or>
     (writeLocalFile ?E1 (packageFileName ?R) (newPackageFileContent ?R) = None \<and>
      fst (runDotnetRestore ?E1 (packageFileName ?R) (packageFiles ?E1 ?R) (config ?R)
             (combinedRegistryUrls (updatedDeps ?R))) = Some ?e1)"
    by (simp add: runDotnetRestore_def createCachedNuGetConfigFile_def nugetEnv_def Let_def split: prod.splits)
  have throw2:
    "writeLocalFile ?E2 (packageFileName ?R) (newPackageFileContent ?R) = Some ?e2 \<or>
     (writeLocalFile ?E2 (packageFileName ?R) (newPackageFileContent ?R) = None \<and>
      fst (runDotnetRestore ?E2 (packageFileName ?R) (packageFiles ?E2 ?R) (config ?R)
             (combinedRegistryUrls (updatedDeps ?R))) = Some ?e2)"
    by (simp add: nugetEnv_def)
  have tmp1: "TEMPORARY_ERROR ?E1 = ''temporary-error''" and tmp2: "TEMPORARY_ERROR ?E2 = ''temporary-error''"
    by (simp_all add: nugetEnv_def)
  from updateArtifacts_failure_classification [OF gate has1 deps throw1]
       updateArtifacts_failure_classification [OF gate has2 deps throw2]
  show ?thesis
    unfolding names1 names2 tmp1 tmp2 by simp
qed

subsection \<open>The successful run\<close>

lemma diffLoop_closed:
  "diffLoop existing new retArray names =
     retArray @ map (\<lambda>n. Addition n (the (new n)))
                  (filter (\<lambda>n. existing n \<noteq> new n \<and> truthy (new n)) names)"
  by (induction names arbitrary: retArray) auto

lemma snapshot_filter:
  "filter (\<lambda>n. getFiles env names n \<noteq> getLocalFiles env names n \<and> truthy (getLocalFiles env names n)) names
     = filter (\<lambda>n. gitFileContent env n \<noteq> localFileContent env n \<and> truthy (localFileContent env n)) names"
  by (rule filter_cong) (auto simp: getFiles_def getLocalFiles_def)

lemma snapshot_map:
  "map (\<lambda>n. Addition n (the (getLocalFiles env names n))) (filter P names)
     = map (\<lambda>n. Addition n (the (localFileContent env n))) (filter P names)"
  by (rule map_cong) (auto simp: getLocalFiles_def)

lemma tryBlock_success:
  assumes "updatedDeps req \<noteq> [] \<or> isLockFileMaintenance (config req) = Some True"
    and "writeLocalFile env (packageFileName req) (newPackageFileContent req) = None"
    and "fst (runDotnetRestore env (packageFileName req) (packageFiles env req) (config req)
                (combinedRegistryUrls (updatedDeps req))) = None"
  shows "fst (tryBlock env req) =
           Inr (let additions =
                      map (\<lambda>n. Addition n (the (localFileContent env n)))
                        (filter (\<lambda>n. gitFileContent env n \<noteq> localFileContent env n \<and>
                                      truthy (localFileContent env n))
                           (lockFileNames env req))
                in if additions = [] then None else Some additions)"
  using assms
  by (auto simp: tryBlock_def diffLoop_closed snapshot_filter snapshot_map Let_def
           split: prod.splits option.splits)

lemma updateArtifacts_past_gates:
  assumes "isCentralManagement env (packageFileName req) \<or> isGlobalJson env (packageFileName req)
             \<or> isProjectFile (packageFileName req)"
    and "hasLockFileContent env req"
  shows "updateArtifacts env req =
           (case tryBlock env req of
              (Inl err, evs) \<Rightarrow> (catchBlock env req err, evs)
            | (Inr res, evs) \<Rightarrow> (Inr res, evs))"
  using assms unfolding updateArtifacts_def by auto

lemma updateArtifacts_success:
  assumes "isCentralManagement env (packageFileName req) \<or> isGlobalJson env (packageFileName req)
             \<or> isProjectFile (packageFileName req)"
    and "hasLockFileContent env req"
    and "updatedDeps req \<noteq> [] \<or> isLockFileMaintenance (config req) = Some True"
    and "writeLocalFile env (packageFileName req) (newPackageFileContent req) = None"
    and "fst (runDotnetRestore env (packageFileName req) (packageFiles env req) (config req)
                (combinedRegistryUrls (updatedDeps req))) = None"
  shows "fst (updateArtifacts env req) =
           Inr (let additions =
                      map (\<lambda>n. Addition n (the (localFileContent env n)))
                        (filter (\<lambda>n. gitFileContent env n \<noteq> localFileContent env n \<and>
                                      truthy (localFileContent env n))
                           (lockFileNames env req))
                in if additions = [] then None else Some additions)"
proof -
  obtain r evs where t: "tryBlock env req = (r, evs)"
    by (cases "tryBlock env req") auto
  with tryBlock_success [OF assms(3,4,5)] obtain res where "r = Inr res" and
    "fst (tryBlock env req) = Inr res" by simp
  with t show ?thesis
    unfolding updateArtifacts_past_gates [OF assms(1,2)]
    using tryBlock_success [OF assms(3,4,5)] by simp
qed



subsection \<open>Facts about the concrete environments\<close>

lemmas nuget_run =
  updateArtifacts_def tryBlock_def catchBlock_def runDotnetRestore_def
  createCachedNuGetConfigFile_def restoreCommands_def restoreCommand_def
  workloadRestoreCommand_def restoreExecOptions_def combinedRegistryUrls_def
  isCentralManagement_def isGlobalJson_def isProjectFile_def asciiLower_def endsWith_def
  dependentFiles_def packageFiles_def lockFileNames_def hasLockFileContent_def
  getFiles_def getLocalFiles_def truthy_def nugetEnv_def nugetRequest_def
  siblingFileName_def Let_def

lemma nugetEnv_lockFileNames:
  "lockFileNames (nugetEnv deps b a w x) req =
     map (\<lambda>f. siblingFileName (name f) ''packages.lock.json'') deps"
  by (simp add: lockFileNames_def dependentFiles_def nugetEnv_def)

lemma nugetEnv_dependentFiles: "dependentFiles (nugetEnv deps b a w x) req = deps"
  by (simp add: dependentFiles_def nugetEnv_def)

lemma nugetEnv_snapshots:
  "gitFileContent (nugetEnv deps b a w x) = b" "localFileContent (nugetEnv deps b a w x) = a"
  by (simp_all add: nugetEnv_def)

lemma nugetEnv_writeLocalFile: "writeLocalFile (nugetEnv deps b a w x) p c = w"
  by (simp add: nugetEnv_def)

lemma nugetEnv_runDotnetRestore:
  "fst (runDotnetRestore (nugetEnv deps b a w x) pkg files cfg urls) = x"
  by (simp add: runDotnetRestore_def createCachedNuGetConfigFile_def nugetEnv_def Let_def
        split: prod.splits)

lemma nugetEnv_hasLockFileContent:
  "deps \<noteq> [] \<Longrightarrow> hasLockFileContent (nugetEnv deps (\<lambda>n. Some (c # cs)) a w x) req"
  unfolding hasLockFileContent_def nugetEnv_lockFileNames
  by (cases deps) (auto simp: getFiles_def truthy_def nugetEnv_def)

lemma nugetRequest_gates:
  "isProjectFile (packageFileName (nugetRequest ''app/app.csproj'' us))"
  "isProjectFile (packageFileName (nugetRequest ''src/lib.csproj'' us))"
  "updatedDeps (nugetRequest p (u # us)) \<noteq> []"
  by (simp_all add: isProjectFile_def asciiLower_def endsWith_def nugetRequest_def)

subsection \<open>The changes reported\<close>

text \<open>
  C4, as the code has it. In a run that passes the gates and in which the manifest write
  and the toolchain run succeed, the result has one \<open>Addition\<close> for each entry of the
  watched list whose content after the run differs from its content before and is
  present and not empty, carrying the full new content, in the order of the watched
  list, and nothing else; a watched lock file whose content is unchanged is omitted; and
  the result is null, never an empty list, when no entry qualifies.
\<close>

theorem updateArtifacts_additions:
  assumes "isCentralManagement env (packageFileName req) \<or> isGlobalJson env (packageFileName req)
             \<or> isProjectFile (packageFileName req)"
    and "hasLockFileContent env req"
    and "updatedDeps req \<noteq> [] \<or> isLockFileMaintenance (config req) = Some True"
    and "writeLocalFile env (packageFileName req) (newPackageFileContent req) = None"
    and "fst (runDotnetRestore env (packageFileName req) (packageFiles env req) (config req)
                (combinedRegistryUrls (updatedDeps req))) = None"
  shows "\<exists>res. fst (updateArtifacts env req) = Inr res \<and> res \<noteq> Some [] \<and>
           resultEntries res =
             map (\<lambda>n. Addition n (the (localFileContent env n)))
               (filter (\<lambda>n. gitFileContent env n \<noteq> localFileContent env n \<and>
                             truthy (localFileContent env n))
                  (lockFileNames env req))"
  unfolding updateArtifacts_success [OF assms]
  by (simp add: Let_def resultEntries_def)

theorem updateArtifacts_additions_witness:
  "fst (updateArtifacts
          (nugetEnv [\<lparr>name = ''src/lib.csproj'', isLeaf = False\<rparr>,
                     \<lparr>name = ''app/app.csproj'', isLeaf = True\<rparr>]
             (\<lambda>n. Some ''v1'')
             (\<lambda>n. if n = ''app/packages.lock.json'' then Some ''v2'' else Some ''v1'')
             None None)
          (nugetRequest ''app/app.csproj''
             [\<lparr>depName = Some ''Newtonsoft.Json'', registryUrls = None\<rparr>]))
     = Inr (Some [Addition ''app/packages.lock.json'' ''v2''])"
proof -
  let ?E = "nugetEnv [\<lparr>name = ''src/lib.csproj'', isLeaf = False\<rparr>,
                     \<lparr>name = ''app/app.csproj'', isLeaf = True\<rparr>]
             (\<lambda>n. Some ''v1'')
             (\<lambda>n. if n = ''app/packages.lock.json'' then Some ''v2'' else Some ''v1'')
             None None"
  let ?R = "nugetRequest ''app/app.csproj''
             [\<lparr>depName = Some ''Newtonsoft.Json'', registryUrls = None\<rparr>]"
  have gate: "isCentralManagement ?E (packageFileName ?R) \<or> isGlobalJson ?E (packageFileName ?R)
                \<or> isProjectFile (packageFileName ?R)"
    by (simp add: isProjectFile_def asciiLower_def endsWith_def nugetRequest_def)
  have names: "lockFileNames ?E ?R = [''src/packages.lock.json'', ''app/packages.lock.json'']"
    by (simp add: lockFileNames_def dependentFiles_def nugetEnv_def siblingFileName_def)
  have has: "hasLockFileContent ?E ?R"
    unfolding hasLockFileContent_def names
    by (auto simp: getFiles_def truthy_def nugetEnv_def)
  have deps: "updatedDeps ?R \<noteq> [] \<or> isLockFileMaintenance (config ?R) = Some True"
    by (simp add: nugetRequest_def)
  have wr: "writeLocalFile ?E (packageFileName ?R) (newPackageFileContent ?R) = None"
    by (simp add: nugetEnv_def)
  have run: "fst (runDotnetRestore ?E (packageFileName ?R) (packageFiles ?E ?R) (config ?R)
                    (combinedRegistryUrls (updatedDeps ?R))) = None"
    by (simp add: runDotnetRestore_def createCachedNuGetConfigFile_def nugetEnv_def Let_def
          split: prod.splits)
  have before: "gitFileContent ?E = (\<lambda>n. Some ''v1'')"
    and after: "localFileContent ?E =
                  (\<lambda>n. if n = ''app/packages.lock.json'' then Some ''v2'' else Some ''v1'')"
    by (simp_all add: nugetEnv_def)
  from updateArtifacts_additions [OF gate has deps wr run]
  obtain res where "fst (updateArtifacts ?E ?R) = Inr res"
    and "resultEntries res = [Addition ''app/packages.lock.json'' ''v2'']"
    unfolding names before after by (auto simp: truthy_def)
  then show ?thesis
    by (cases res) (simp_all add: resultEntries_def)
qed

text \<open>
  C4 as stated fails where the new content is present but empty: the content differs
  from the old one, the lock file is present after the run, and no \<open>Addition\<close> is made.
\<close>

theorem updateArtifacts_empty_after_counterexample:
  "lockFileNames
     (nugetEnv [\<lparr>name = ''app.csproj'', isLeaf = True\<rparr>] (\<lambda>n. Some ''{}'') (\<lambda>n. Some '''') None None)
     (nugetRequest ''app.csproj'' [\<lparr>depName = Some ''Newtonsoft.Json'', registryUrls = None\<rparr>])
     = [''packages.lock.json''] \<and>
   gitFileContent
     (nugetEnv [\<lparr>name = ''app.csproj'', isLeaf = True\<rparr>] (\<lambda>n. Some ''{}'') (\<lambda>n. Some '''') None None)
     ''packages.lock.json'' = Some ''{}'' \<and>
   localFileContent
     (nugetEnv [\<lparr>name = ''app.csproj'', isLeaf = True\<rparr>] (\<lambda>n. Some ''{}'') (\<lambda>n. Some '''') None None)
     ''packages.lock.json'' = Some '''' \<and>
   updateArtifacts
     (nugetEnv [\<lparr>name = ''app.csproj'', isLeaf = True\<rparr>] (\<lambda>n. Some ''{}'') (\<lambda>n. Some '''') None None)
     (nugetRequest ''app.csproj'' [\<lparr>depName = Some ''Newtonsoft.Json'', registryUrls = None\<rparr>])
     = (Inr None,
        [WriteLocalFile ''app.csproj'' ''<Project />'',
         EnsureDir ''/cache/nuget'',
         OutputCacheFile ''/cache/nuget/nuget.config'' ''https://api.nuget.org/v3/index.json'',
         Exec [''dotnet restore app.csproj --force-evaluate --configfile /cache/nuget/nuget.config'']
           \<lparr>docker = [],
            extraEnv = [(''NUGET_PACKAGES'', ''/cache/nuget/packages''),
                        (''MSBUILDDISABLENODEREUSE'', ''1'')],
            toolConstraints = [\<lparr>toolName = ''dotnet'', constraint = None\<rparr>]\<rparr>])"
  by (simp add: nuget_run)

text \<open>
  C3, as the code has it. In a successful run, a watched lock file that had content
  before and is absent after gets no entry in the result: every entry is an \<open>Addition\<close>
  for another path, there is no error entry, and the result is null when no other
  watched lock file changed.
\<close>

theorem updateArtifacts_lock_file_absent_after:
  assumes "isCentralManagement env (packageFileName req) \<or> isGlobalJson env (packageFileName req)
             \<or> isProjectFile (packageFileName req)"
    and "hasLockFileContent env req"
    and "updatedDeps req \<noteq> [] \<or> isLockFileMaintenance (config req) = Some True"
    and "writeLocalFile env (packageFileName req) (newPackageFileContent req) = None"
    and "fst (runDotnetRestore env (packageFileName req) (packageFiles env req) (config req)
                (combinedRegistryUrls (updatedDeps req))) = None"
    and "n \<in> set (lockFileNames env req)"
    and "gitFileContent env n = Some c"
    and "localFileContent env n = None"
  shows "\<exists>res. fst (updateArtifacts env req) = Inr res \<and>
           (\<forall>x \<in> set (resultEntries res). \<exists>p d. x = Addition p d \<and> p \<noteq> n) \<and>
           ((\<forall>m \<in> set (lockFileNames env req).
               m \<noteq> n \<longrightarrow> gitFileContent env m = localFileContent env m) \<longrightarrow> res = None)"
proof -
  let ?changed = "\<lambda>m. gitFileContent env m \<noteq> localFileContent env m \<and> truthy (localFileContent env m)"
  have no_n: "\<not> ?changed n"
    using assms(8) by (simp add: truthy_def)
  have "(\<forall>m \<in> set (lockFileNames env req). m \<noteq> n \<longrightarrow> gitFileContent env m = localFileContent env m)
          \<Longrightarrow> filter ?changed (lockFileNames env req) = []"
    using no_n by (auto simp: filter_empty_conv)
  moreover have "\<forall>x \<in> set (map (\<lambda>m. Addition m (the (localFileContent env m)))
                            (filter ?changed (lockFileNames env req))).
                   \<exists>p d. x = Addition p d \<and> p \<noteq> n"
    using no_n by auto
  ultimately show ?thesis
    unfolding updateArtifacts_success [OF assms(1-5)]
    by (auto simp: Let_def resultEntries_def)
qed

theorem updateArtifacts_lock_file_absent_after_witness:
  "lockFileNames
     (nugetEnv [\<lparr>name = ''src/lib.csproj'', isLeaf = False\<rparr>,
                \<lparr>name = ''app/app.csproj'', isLeaf = True\<rparr>]
        (\<lambda>n. Some ''v1'')
        (\<lambda>n. if n = ''app/packages.lock.json'' then None else Some ''v1'')
        None None)
     (nugetRequest ''app/app.csproj''
        [\<lparr>depName = Some ''Newtonsoft.Json'', registryUrls = None\<rparr>])
     = [''src/packages.lock.json'', ''app/packages.lock.json''] \<and>
   fst (updateArtifacts
          (nugetEnv [\<lparr>name = ''src/lib.csproj'', isLeaf = False\<rparr>,
                     \<lparr>name = ''app/app.csproj'', isLeaf = True\<rparr>]
             (\<lambda>n. Some ''v1'')
             (\<lambda>n. if n = ''app/packages.lock.json'' then None else Some ''v1'')
             None None)
          (nugetRequest ''app/app.csproj''
             [\<lparr>depName = Some ''Newtonsoft.Json'', registryUrls = None\<rparr>]))
     = Inr None"
proof -
  let ?E = "nugetEnv [\<lparr>name = ''src/lib.csproj'', isLeaf = False\<rparr>,
                     \<lparr>name = ''app/app.csproj'', isLeaf = True\<rparr>]
             (\<lambda>n. Some ''v1'')
             (\<lambda>n. if n = ''app/packages.lock.json'' then None else Some ''v1'')
             None None"
  let ?R = "nugetRequest ''app/app.csproj''
             [\<lparr>depName = Some ''Newtonsoft.Json'', registryUrls = None\<rparr>]"
  have gate: "isCentralManagement ?E (packageFileName ?R) \<or> isGlobalJson ?E (packageFileName ?R)
                \<or> isProjectFile (packageFileName ?R)"
    by (simp add: nugetRequest_gates)
  have has: "hasLockFileContent ?E ?R"
    by (rule nugetEnv_hasLockFileContent) simp
  have deps: "updatedDeps ?R \<noteq> [] \<or> isLockFileMaintenance (config ?R) = Some True"
    by (simp add: nugetRequest_gates)
  have wr: "writeLocalFile ?E (packageFileName ?R) (newPackageFileContent ?R) = None"
    by (simp add: nugetEnv_writeLocalFile)
  have run: "fst (runDotnetRestore ?E (packageFileName ?R) (packageFiles ?E ?R) (config ?R)
                    (combinedRegistryUrls (updatedDeps ?R))) = None"
    by (simp add: nugetEnv_runDotnetRestore)
  have names: "lockFileNames ?E ?R = [''src/packages.lock.json'', ''app/packages.lock.json'']"
    by (simp add: nugetEnv_lockFileNames siblingFileName_def)
  have watched: "''app/packages.lock.json'' \<in> set (lockFileNames ?E ?R)"
    unfolding names by simp
  have before: "gitFileContent ?E ''app/packages.lock.json'' = Some ''v1''"
    by (simp add: nugetEnv_snapshots)
  have after: "localFileContent ?E ''app/packages.lock.json'' = None"
    by (simp add: nugetEnv_snapshots)
  have others: "\<forall>m \<in> set (lockFileNames ?E ?R).
                  m \<noteq> ''app/packages.lock.json'' \<longrightarrow> gitFileContent ?E m = localFileContent ?E m"
    unfolding names by (simp add: nugetEnv_snapshots)
  from updateArtifacts_lock_file_absent_after [OF gate has deps wr run watched before after]
  obtain res where "fst (updateArtifacts ?E ?R) = Inr res"
    and "(\<forall>m \<in> set (lockFileNames ?E ?R).
            m \<noteq> ''app/packages.lock.json'' \<longrightarrow> gitFileContent ?E m = localFileContent ?E m)
         \<longrightarrow> res = None"
    by blast
  with others names show ?thesis by simp
qed

text \<open>
  C3 as stated fails: the only watched lock file has content before the run and is
  absent after it, the toolchain ran, and the result is null.
\<close>

theorem updateArtifacts_absent_after_counterexample:
  "lockFileNames
     (nugetEnv [\<lparr>name = ''app.csproj'', isLeaf = True\<rparr>] (\<lambda>n. Some ''{}'') (\<lambda>n. None) None None)
     (nugetRequest ''app.csproj'' [\<lparr>depName = Some ''Newtonsoft.Json'', registryUrls = None\<rparr>])
     = [''packages.lock.json''] \<and>
   gitFileContent
     (nugetEnv [\<lparr>name = ''app.csproj'', isLeaf = True\<rparr>] (\<lambda>n. Some ''{}'') (\<lambda>n. None) None None)
     ''packages.lock.json'' = Some ''{}'' \<and>
   localFileContent
     (nugetEnv [\<lparr>name = ''app.csproj'', isLeaf = True\<rparr>] (\<lambda>n. Some ''{}'') (\<lambda>n. None) None None)
     ''packages.lock.json'' = None \<and>
   updateArtifacts
     (nugetEnv [\<lparr>name = ''app.csproj'', isLeaf = True\<rparr>] (\<lambda>n. Some ''{}'') (\<lambda>n. None) None None)
     (nugetRequest ''app.csproj'' [\<lparr>depName = Some ''Newtonsoft.Json'', registryUrls = None\<rparr>])
     = (Inr None,
        [WriteLocalFile ''app.csproj'' ''<Project />'',
         EnsureDir ''/cache/nuget'',
         OutputCacheFile ''/cache/nuget/nuget.config'' ''https://api.nuget.org/v3/index.json'',
         Exec [''dotnet restore app.csproj --force-evaluate --configfile /cache/nuget/nuget.config'']
           \<lparr>docker = [],
            extraEnv = [(''NUGET_PACKAGES'', ''/cache/nuget/packages''),
                        (''MSBUILDDISABLENODEREUSE'', ''1'')],
            toolConstraints = [\<lparr>toolName = ''dotnet'', constraint = None\<rparr>]\<rparr>])"
  by (simp add: nuget_run)




section \<open>Properties of the repository text filters\<close>

subsection \<open>The interpolation filter\<close>

lemma startsWith_iff: "startsWith s t \<longleftrightarrow> (\<exists>q. s = t @ q)"
proof
  assume "startsWith s t"
  then have "s = t @ drop (length t) s"
    unfolding startsWith_def by (metis append_take_drop_id)
  then show "\<exists>q. s = t @ q" ..
next
  assume "\<exists>q. s = t @ q"
  then show "startsWith s t" by (auto simp: startsWith_def)
qed

lemma str_includes_iff: "str_includes s t \<longleftrightarrow> (\<exists>p q. s = p @ t @ q)"
proof (induction s)
  case Nil
  then show ?case by auto
next
  case (Cons c cs)
  show ?case
  proof
    assume "str_includes (c # cs) t"
    then consider "startsWith (c # cs) t" | "str_includes cs t" by auto
    then show "\<exists>p q. c # cs = p @ t @ q"
    proof cases
      case 1
      then obtain q where "c # cs = t @ q" by (auto simp: startsWith_iff)
      then have "c # cs = [] @ t @ q" by simp
      then show ?thesis by blast
    next
      case 2
      with Cons.IH obtain p q where "cs = p @ t @ q" by blast
      then have "c # cs = (c # p) @ t @ q" by simp
      then show ?thesis by blast
    qed
  next
    assume "\<exists>p q. c # cs = p @ t @ q"
    then obtain p q where pq: "c # cs = p @ t @ q" by blast
    show "str_includes (c # cs) t"
    proof (cases p)
      case Nil
      with pq have "startsWith (c # cs) t" by (auto simp: startsWith_iff)
      then show ?thesis by simp
    next
      case (Cons a p')
      with pq have "cs = p' @ t @ q" by simp
      with Cons.IH have "str_includes cs t" by blast
      then show ?thesis by simp
    qed
  qed
qed

lemma includes_across_separator:
  assumes "p @ t @ q = x @ sep # r" and "sep \<notin> set t" and "t \<noteq> []"
  shows "(\<exists>p' q'. x = p' @ t @ q') \<or> (\<exists>p' q'. r = p' @ t @ q')"
  using assms(1)
proof (induction p arbitrary: x)
  case Nil
  then have "t @ q = x @ sep # r" by simp
  then obtain us where "(t = x @ us \<and> us @ q = sep # r) \<or> (t @ us = x \<and> q = us @ sep # r)"
    by (auto simp: append_eq_append_conv2)
  then show ?case
  proof
    assume a: "t = x @ us \<and> us @ q = sep # r"
    show ?thesis
    proof (cases us)
      case Nil
      with a have "x = [] @ t @ []" by simp
      then show ?thesis by blast
    next
      case (Cons u us')
      with a have "u = sep" by simp
      with a Cons have "sep \<in> set t" by simp
      with assms(2) show ?thesis by simp
    qed
  next
    assume "t @ us = x \<and> q = us @ sep # r"
    then have "x = [] @ t @ us" by simp
    then show ?thesis by blast
  qed
next
  case (Cons a p')
  show ?case
  proof (cases x)
    case Nil
    with Cons.prems have "r = p' @ t @ q" by simp
    then show ?thesis by blast
  next
    case (Cons b x')
    with Cons.prems have "p' @ t @ q = x' @ sep # r" and "a = b" by simp_all
    from Cons.IH [OF this(1)] show ?thesis
    proof
      assume "\<exists>p'' q'. x' = p'' @ t @ q'"
      then obtain p'' q' where "x' = p'' @ t @ q'" by blast
      with Cons have "x = (b # p'') @ t @ q'" by simp
      then show ?thesis by blast
    next
      assume "\<exists>p'' q'. r = p'' @ t @ q'"
      then show ?thesis by blast
    qed
  qed
qed

lemma join_marker_free:
  assumes "sep \<notin> set t" and "t \<noteq> []" and "\<forall>l \<in> set ls. \<not> str_includes l t"
  shows "\<not> str_includes (join [sep] ls) t"
  using assms(3)
proof (induction "[sep]" ls rule: join.induct)
  case 1
  with assms(2) show ?case by simp
next
  case (2 x)
  then show ?case by simp
next
  case (3 x y ys)
  show ?case
  proof
    assume "str_includes (join [sep] (x # y # ys)) t"
    then obtain p q where "p @ t @ q = x @ sep # join [sep] (y # ys)"
      by (auto simp: str_includes_iff)
    from includes_across_separator [OF this assms(1,2)]
    have "str_includes x t \<or> str_includes (join [sep] (y # ys)) t"
      by (simp add: str_includes_iff)
    with 3 show False by simp
  qed
qed

lemma stripVariables_marker_free:
  "\<not> exposeAllEnv env \<Longrightarrow> \<not> str_includes (stripVariables env r) ''=${''"
proof -
  assume off: "\<not> exposeAllEnv env"
  have "\<not> str_includes
           (join [LF] (filter (\<lambda>line. \<not> str_includes line ''=${'') (splitNewline env r)))
           ''=${''"
    by (rule join_marker_free) simp_all
  with off show ?thesis
    by (simp add: stripVariables_def)
qed

subsection \<open>The package-lock stripping\<close>

text \<open>
  Whatever the dot of the engine matches, a match of the package-lock expression is a
  whole line that starts with \<open>package-lock\<close>, with the line feed that ends it, and the
  replacement puts a line feed in its place. So the stripping keeps every other
  non-empty line, byte for byte and in order.
\<close>

lemma linesOf_nonempty: "linesOf s \<noteq> []"
  by (induction s) (auto split: list.splits)

lemma linesOf_hd_tl: "linesOf s = hd (linesOf s) # tl (linesOf s)"
  using linesOf_nonempty [of s] by simp

lemma linesOf_Cons: "c \<noteq> LF \<Longrightarrow> linesOf (c # cs) = (c # hd (linesOf cs)) # tl (linesOf cs)"
  using linesOf_nonempty [of cs] by (cases "linesOf cs") simp_all

lemma linesOf_line: "LF \<notin> set l \<Longrightarrow> linesOf l = [l]"
  by (induction l) (auto split: list.splits)

lemma linesOf_append: "LF \<notin> set l \<Longrightarrow> linesOf (l @ LF # r) = l # linesOf r"
  by (induction l) (auto split: list.splits)

lemma restOfLine_split:
  "restOfLine dot s = Some rest \<Longrightarrow>
   \<exists>l. LF \<notin> set l \<and> (s = l @ LF # rest \<or> (s = l \<and> rest = []))"
proof (induction s)
  case Nil
  then show ?case by simp
next
  case (Cons c cs)
  show ?case
  proof (cases "c = LF")
    case True
    with Cons.prems have "c # cs = [] @ LF # rest" by simp
    then show ?thesis by (metis empty_iff list.set(1))
  next
    case False
    with Cons.prems have "restOfLine dot cs = Some rest" by (simp split: if_splits)
    from Cons.IH [OF this] obtain l where
      l: "LF \<notin> set l" "cs = l @ LF # rest \<or> (cs = l \<and> rest = [])" by blast
    from l(1) False have "LF \<notin> set (c # l)" by simp
    moreover from l(2) have "c # cs = (c # l) @ LF # rest \<or> (c # cs = c # l \<and> rest = [])"
      by auto
    ultimately show ?thesis by blast
  qed
qed

lemma packageLockMatch_split:
  assumes "packageLockMatch dot s = Some rest"
  shows "\<exists>l. startsWith l ''package-lock'' \<and> LF \<notin> set l \<and>
             (s = l @ LF # rest \<or> (s = l \<and> rest = []))"
proof -
  from assms have sw: "startsWith s ''package-lock''"
    and rl: "restOfLine dot (drop 12 s) = Some rest"
    by (auto simp: packageLockMatch_def split: if_splits)
  from sw obtain q where s: "s = ''package-lock'' @ q"
    unfolding startsWith_def by (metis append_take_drop_id)
  from rl have "restOfLine dot q = Some rest"
    unfolding s by simp
  from restOfLine_split [OF this] obtain l where
    l: "LF \<notin> set l" "q = l @ LF # rest \<or> (q = l \<and> rest = [])" by blast
  let ?l = "''package-lock'' @ l"
  have "startsWith ?l ''package-lock''" by (simp add: startsWith_def)
  moreover have "LF \<notin> set ?l" using l(1) by simp
  moreover have "s = ?l @ LF # rest \<or> (s = ?l \<and> rest = [])"
    using l(2) unfolding s by auto
  ultimately show ?thesis by blast
qed

lemma packageLockMatch_lines:
  assumes "packageLockMatch dot s = Some rest"
  shows "filter otherSetting (linesOf s) = filter otherSetting (linesOf rest)"
proof -
  from packageLockMatch_split [OF assms] obtain l where
    l: "startsWith l ''package-lock''" "LF \<notin> set l"
       "s = l @ LF # rest \<or> (s = l \<and> rest = [])" by blast
  from l(1) have no: "\<not> otherSetting l" by (simp add: otherSetting_def)
  from l(3) show ?thesis
  proof
    assume "s = l @ LF # rest"
    then show ?thesis using no by (simp add: linesOf_append [OF l(2)])
  next
    assume "s = l \<and> rest = []"
    then show ?thesis using no by (simp add: linesOf_line [OF l(2)] otherSetting_def)
  qed
qed

lemma replacePackageLock_lines_aux:
  "(atStart \<and> packageLockMatch dot s \<noteq> None \<longrightarrow>
      filter otherSetting (linesOf (replacePackageLock dot atStart s)) =
        filter otherSetting (linesOf s)) \<and>
   (\<not> (atStart \<and> packageLockMatch dot s \<noteq> None) \<longrightarrow>
      (\<exists>ls. linesOf (replacePackageLock dot atStart s) = hd (linesOf s) # ls \<and>
            filter otherSetting ls = filter otherSetting (tl (linesOf s))))"
proof (induction dot atStart s rule: replacePackageLock.induct)
  case (1 dot atStart)
  show ?case by (simp add: packageLockMatch_def startsWith_def)
next
  case (2 dot atStart c cs)
  let ?first = "if atStart then packageLockMatch dot (c # cs) else None"
  let ?second = "if c = LF then packageLockMatch dot cs else None"
  have rest_lines: "filter otherSetting (linesOf (replacePackageLock dot False t)) =
                      filter otherSetting (linesOf t)"
    if "\<exists>ls. linesOf (replacePackageLock dot False t) = hd (linesOf t) # ls \<and>
              filter otherSetting ls = filter otherSetting (tl (linesOf t))" for t
  proof -
    from that obtain ls where
      ls: "linesOf (replacePackageLock dot False t) = hd (linesOf t) # ls"
          "filter otherSetting ls = filter otherSetting (tl (linesOf t))" by blast
    have "filter otherSetting (linesOf t) = filter otherSetting (hd (linesOf t) # tl (linesOf t))"
      using linesOf_hd_tl [of t] by simp
    with ls show ?thesis by simp
  qed
  have empty: "\<not> otherSetting []" by (simp add: otherSetting_def)
  show ?case
  proof (cases ?first)
    case (Some rest)
    then have at: "atStart" and m: "packageLockMatch dot (c # cs) = Some rest"
      by (simp_all split: if_splits)
    from "2.IH"(3) [OF Some] have
      "\<exists>ls. linesOf (replacePackageLock dot False rest) = hd (linesOf rest) # ls \<and>
            filter otherSetting ls = filter otherSetting (tl (linesOf rest))"
      by simp
    from rest_lines [OF this] have
      "filter otherSetting (linesOf (replacePackageLock dot False rest)) =
         filter otherSetting (linesOf rest)" .
    moreover have "replacePackageLock dot atStart (c # cs) = LF # replacePackageLock dot False rest"
      using Some by simp
    ultimately have "filter otherSetting (linesOf (replacePackageLock dot atStart (c # cs))) =
                       filter otherSetting (linesOf (c # cs))"
      using packageLockMatch_lines [OF m] empty by simp
    with at m show ?thesis by simp
  next
    case None
    then have cond: "\<not> (atStart \<and> packageLockMatch dot (c # cs) \<noteq> None)"
      by (auto split: if_splits)
    show ?thesis
    proof (cases ?second)
      case (Some rest)
      then have c: "c = LF" and m: "packageLockMatch dot cs = Some rest"
        by (simp_all split: if_splits)
      from "2.IH"(2) [OF None Some] have
        "\<exists>ls. linesOf (replacePackageLock dot False rest) = hd (linesOf rest) # ls \<and>
              filter otherSetting ls = filter otherSetting (tl (linesOf rest))"
        by simp
      from rest_lines [OF this] have
        "filter otherSetting (linesOf (replacePackageLock dot False rest)) =
           filter otherSetting (linesOf cs)"
        using packageLockMatch_lines [OF m] by simp
      moreover have "replacePackageLock dot atStart (c # cs) =
                       LF # replacePackageLock dot False rest"
        using None Some by simp
      ultimately have
        "linesOf (replacePackageLock dot atStart (c # cs)) =
           hd (linesOf (c # cs)) # linesOf (replacePackageLock dot False rest) \<and>
         filter otherSetting (linesOf (replacePackageLock dot False rest)) =
           filter otherSetting (tl (linesOf (c # cs)))"
        using c by simp
      with cond show ?thesis by blast
    next
      case second: None
      from "2.IH"(1) [OF None second] obtain ls where
        ls: "linesOf (replacePackageLock dot False cs) = hd (linesOf cs) # ls"
            "filter otherSetting ls = filter otherSetting (tl (linesOf cs))"
        by auto
      have step: "replacePackageLock dot atStart (c # cs) = c # replacePackageLock dot False cs"
        using None second by simp
      show ?thesis
      proof (cases "c = LF")
        case True
        have "filter otherSetting (hd (linesOf cs) # ls) = filter otherSetting (linesOf cs)"
          using ls(2) linesOf_hd_tl [of cs] by (metis filter.simps(2))
        then have
          "linesOf (replacePackageLock dot atStart (c # cs)) =
             hd (linesOf (c # cs)) # (hd (linesOf cs) # ls) \<and>
           filter otherSetting (hd (linesOf cs) # ls) =
             filter otherSetting (tl (linesOf (c # cs)))"
          unfolding step using True ls(1) by simp
        with cond show ?thesis by blast
      next
        case False
        have "linesOf (replacePackageLock dot atStart (c # cs)) = (c # hd (linesOf cs)) # ls"
          unfolding step linesOf_Cons [OF False] ls(1) by simp
        moreover have "linesOf (c # cs) = (c # hd (linesOf cs)) # tl (linesOf cs)"
          by (rule linesOf_Cons [OF False])
        ultimately have
          "linesOf (replacePackageLock dot atStart (c # cs)) = hd (linesOf (c # cs)) # ls \<and>
           filter otherSetting ls = filter otherSetting (tl (linesOf (c # cs)))"
          using ls(2) by simp
        with cond show ?thesis by blast
      qed
    qed
  qed
qed

lemma replacePackageLock_lines:
  "filter otherSetting (linesOf (replacePackageLock dot atStart s)) =
     filter otherSetting (linesOf s)"
proof (cases "atStart \<and> packageLockMatch dot s \<noteq> None")
  case True
  with replacePackageLock_lines_aux [of atStart dot s] show ?thesis by blast
next
  case False
  with replacePackageLock_lines_aux [of atStart dot s] obtain ls where
    ls: "linesOf (replacePackageLock dot atStart s) = hd (linesOf s) # ls"
        "filter otherSetting ls = filter otherSetting (tl (linesOf s))" by blast
  have "filter otherSetting (linesOf s) = filter otherSetting (hd (linesOf s) # tl (linesOf s))"
    using linesOf_hd_tl [of s] by simp
  with ls show ?thesis by simp
qed

lemma stripPackageLock_lines:
  "filter otherSetting (linesOf (stripPackageLock env repoNpmrc)) =
     filter otherSetting (linesOf repoNpmrc)"
  by (simp add: stripPackageLock_def replacePackageLock_lines)

lemma marker_lines_filter:
  "filter (\<lambda>l. str_includes l ''=${'' \<and> \<not> startsWith l ''package-lock'') ls =
     filter (\<lambda>l. str_includes l ''=${'') (filter otherSetting ls)"
  by (induction ls) (auto simp: otherSetting_def)

lemma stripPackageLock_marker_lines:
  "filter (\<lambda>l. str_includes l ''=${'' \<and> \<not> startsWith l ''package-lock'')
       (linesOf (stripPackageLock env repoNpmrc)) =
     filter (\<lambda>l. str_includes l ''=${'' \<and> \<not> startsWith l ''package-lock'')
       (linesOf repoNpmrc)"
  unfolding marker_lines_filter stripPackageLock_lines ..

text \<open>On a text with CRLF line ends, with RE2: the package-lock line is stripped.\<close>

lemma stripPackageLock_crlf_example:
  "stripPackageLock (npmrcEnv None None False) [CHR ''p'', CHR ''a'', CHR ''c'', CHR ''k'',
       CHR ''a'', CHR ''g'', CHR ''e'', CHR ''-'', CHR ''l'', CHR ''o'', CHR ''c'', CHR ''k'',
       CHR ''='', CHR ''0'', CR, LF, CHR ''a'', CHR ''='', CHR ''1'']
     = [LF, CHR ''a'', CHR ''='', CHR ''1'']"
  by (simp add: stripPackageLock_def packageLockMatch_def startsWith_def npmrcEnv_def)

subsection \<open>Lines with an interpolation marker\<close>

text \<open>
  C6, as the code has it. When a repository config file is found and read and the merge
  path is taken, the resolved text is the caller text (ended by a line feed when not
  empty) followed by the filtered repository text. With the expose-all-environment flag
  set, the interpolation filter is not applied: the appended text is the repository text
  as the package-lock stripping leaves it, and every line of the repository text that
  contains the marker and does not start with \<open>package-lock\<close> is in it, byte for byte
  and in order, as is every other non-empty line that does not start with
  \<open>package-lock\<close>; the text is unchanged altogether when it does not contain
  \<open>package-lock\<close>. With the flag unset, the appended text contains no interpolation
  marker: when the stripped repository text contains one, it is split into lines, every
  line containing the marker is removed and the remaining lines are joined by line
  feeds.
\<close>

theorem resolveNpmrc_variable_lines:
  assumes "findLocalSiblingOrParent env packageFile ''.npmrc'' = Some f" and "f \<noteq> []"
    and "readLocalFile env f = Some repoNpmrc"
    and "config_npmrc cfg = None \<or> config_npmrcMerge cfg = Some True"
  shows "\<exists>kept.
           resolveNpmrc env packageFile cfg =
             \<lparr>npmrc = Some (callerPrefix (config_npmrc cfg) @ kept), npmrcFileName = Some f\<rparr> \<and>
           (exposeAllEnv env \<longrightarrow>
              kept = stripPackageLock env repoNpmrc \<and>
              filter otherSetting (linesOf kept) = filter otherSetting (linesOf repoNpmrc) \<and>
              filter (\<lambda>l. str_includes l ''=${'' \<and> \<not> startsWith l ''package-lock'')
                  (linesOf kept) =
                filter (\<lambda>l. str_includes l ''=${'' \<and> \<not> startsWith l ''package-lock'')
                  (linesOf repoNpmrc)) \<and>
           (\<not> exposeAllEnv env \<longrightarrow>
              \<not> str_includes kept ''=${'' \<and>
              (str_includes (stripPackageLock env repoNpmrc) ''=${'' \<longrightarrow>
                 kept = join [LF]
                          (filter (\<lambda>line. \<not> str_includes line ''=${'')
                             (splitNewline env (stripPackageLock env repoNpmrc)))) \<and>
              (\<not> str_includes (stripPackageLock env repoNpmrc) ''=${'' \<longrightarrow>
                 kept = stripPackageLock env repoNpmrc)) \<and>
           filter otherSetting (linesOf (stripPackageLock env repoNpmrc)) =
             filter otherSetting (linesOf repoNpmrc) \<and>
           (\<not> str_includes repoNpmrc ''package-lock'' \<longrightarrow>
              stripPackageLock env repoNpmrc = repoNpmrc)"
proof -
  let ?stripped = "stripPackageLock env repoNpmrc"
  let ?kept = "stripVariables env ?stripped"
  have res: "resolveNpmrc env packageFile cfg =
               \<lparr>npmrc = Some (callerPrefix (config_npmrc cfg) @ ?kept), npmrcFileName = Some f\<rparr>"
    using assms by (auto simp: resolveNpmrc_def truthy_def isString_def)
  have on: "exposeAllEnv env \<longrightarrow>
              ?kept = ?stripped \<and>
              filter otherSetting (linesOf ?kept) = filter otherSetting (linesOf repoNpmrc) \<and>
              filter (\<lambda>l. str_includes l ''=${'' \<and> \<not> startsWith l ''package-lock'')
                  (linesOf ?kept) =
                filter (\<lambda>l. str_includes l ''=${'' \<and> \<not> startsWith l ''package-lock'')
                  (linesOf repoNpmrc)"
  proof
    assume "exposeAllEnv env"
    then have k: "?kept = ?stripped" by (simp add: stripVariables_def)
    show "?kept = ?stripped \<and>
              filter otherSetting (linesOf ?kept) = filter otherSetting (linesOf repoNpmrc) \<and>
              filter (\<lambda>l. str_includes l ''=${'' \<and> \<not> startsWith l ''package-lock'')
                  (linesOf ?kept) =
                filter (\<lambda>l. str_includes l ''=${'' \<and> \<not> startsWith l ''package-lock'')
                  (linesOf repoNpmrc)"
      unfolding k using stripPackageLock_lines stripPackageLock_marker_lines by blast
  qed
  have off: "\<not> exposeAllEnv env \<longrightarrow>
              \<not> str_includes ?kept ''=${'' \<and>
              (str_includes ?stripped ''=${'' \<longrightarrow>
                 ?kept = join [LF]
                          (filter (\<lambda>line. \<not> str_includes line ''=${'')
                             (splitNewline env ?stripped))) \<and>
              (\<not> str_includes ?stripped ''=${'' \<longrightarrow> ?kept = ?stripped)"
    using stripVariables_marker_free [of env ?stripped]
    by (simp add: stripVariables_def)
  have lines: "filter otherSetting (linesOf ?stripped) = filter otherSetting (linesOf repoNpmrc)"
    by (rule stripPackageLock_lines)
  have pl: "\<not> str_includes repoNpmrc ''package-lock'' \<longrightarrow> ?stripped = repoNpmrc"
    by (simp add: stripPackageLock_def)
  from res on off lines pl show ?thesis by blast
qed

theorem resolveNpmrc_variable_lines_witness:
  "resolveNpmrc
     (npmrcEnv (Some ''.npmrc'')
        (Some ''registry=https://r/\<newline>package-lock=false\<newline>//r/:_authToken=${NPM_TOKEN}\<newline>'')
        False)
     ''package.json'' \<lparr>config_npmrc = Some ''save-exact=true'', config_npmrcMerge = Some True\<rparr>
     = \<lparr>npmrc = Some ''save-exact=true\<newline>registry=https://r/\<newline>'',
        npmrcFileName = Some ''.npmrc''\<rparr> \<and>
   resolveNpmrc
     (npmrcEnv (Some ''.npmrc'')
        (Some ''registry=https://r/\<newline>package-lock=false\<newline>//r/:_authToken=${NPM_TOKEN}\<newline>'')
        True)
     ''package.json'' \<lparr>config_npmrc = Some ''save-exact=true'', config_npmrcMerge = Some True\<rparr>
     = \<lparr>npmrc = Some ''save-exact=true\<newline>registry=https://r/\<newline>//r/:_authToken=${NPM_TOKEN}\<newline>'',
        npmrcFileName = Some ''.npmrc''\<rparr>"
proof -
  let ?repo = "''registry=https://r/\<newline>package-lock=false\<newline>//r/:_authToken=${NPM_TOKEN}\<newline>''"
  let ?stripped = "''registry=https://r/\<newline>//r/:_authToken=${NPM_TOKEN}\<newline>''"
  let ?cfg = "\<lparr>config_npmrc = Some ''save-exact=true'', config_npmrcMerge = Some True\<rparr>"
  have found: "findLocalSiblingOrParent (npmrcEnv (Some ''.npmrc'') (Some ?repo) b)
                 ''package.json'' ''.npmrc'' = Some ''.npmrc''" for b
    by (simp add: npmrcEnv_def)
  have nonempty: "''.npmrc'' \<noteq> []" by simp
  have read: "readLocalFile (npmrcEnv (Some ''.npmrc'') (Some ?repo) b) ''.npmrc'' = Some ?repo" for b
    by (simp add: npmrcEnv_def)
  have merge: "config_npmrc ?cfg = None \<or> config_npmrcMerge ?cfg = Some True" by simp
  have flag: "exposeAllEnv (npmrcEnv (Some ''.npmrc'') (Some ?repo) b) = b" for b
    by (simp add: npmrcEnv_def)
  have split: "splitNewline (npmrcEnv (Some ''.npmrc'') (Some ?repo) b) = splitLines" for b
    by (simp add: npmrcEnv_def)
  have strip: "stripPackageLock (npmrcEnv (Some ''.npmrc'') (Some ?repo) b) ?repo = ?stripped" for b
    by (simp add: stripPackageLock_def packageLockMatch_def startsWith_def npmrcEnv_def)
  have marker: "str_includes ?stripped ''=${''"
    by (simp add: startsWith_def)
  have pre: "callerPrefix (config_npmrc ?cfg) = ''save-exact=true\<newline>''"
    by (simp add: callerPrefix_def endsWith_def)
  from resolveNpmrc_variable_lines [OF found nonempty read merge, of False]
  obtain k1 where k1: "resolveNpmrc (npmrcEnv (Some ''.npmrc'') (Some ?repo) False) ''package.json'' ?cfg
        = \<lparr>npmrc = Some (callerPrefix (config_npmrc ?cfg) @ k1), npmrcFileName = Some ''.npmrc''\<rparr>"
      "k1 = join [LF] (filter (\<lambda>line. \<not> str_includes line ''=${'') (splitLines ?stripped))"
    unfolding flag split strip using marker by blast
  from resolveNpmrc_variable_lines [OF found nonempty read merge, of True]
  obtain k2 where k2: "resolveNpmrc (npmrcEnv (Some ''.npmrc'') (Some ?repo) True) ''package.json'' ?cfg
        = \<lparr>npmrc = Some (callerPrefix (config_npmrc ?cfg) @ k2), npmrcFileName = Some ''.npmrc''\<rparr>"
      "k2 = ?stripped"
    unfolding flag split strip by blast
  have "k1 = ''registry=https://r/\<newline>''"
    unfolding k1(2) by (simp add: startsWith_def)
  with k1(1) k2 show ?thesis
    unfolding pre by simp
qed

text \<open>
  C6 as stated fails with the flag set: a repository line that contains the marker and
  starts with \<open>package-lock\<close> is removed by the package-lock stripping, not preserved.
\<close>

theorem resolveNpmrc_package_lock_variable_counterexample:
  "exposeAllEnv (npmrcEnv (Some ''.npmrc'') (Some ''package-lock=${LOCK}\<newline>registry=https://r/'') True) \<and>
   splitLines ''package-lock=${LOCK}\<newline>registry=https://r/''
     = [''package-lock=${LOCK}'', ''registry=https://r/''] \<and>
   str_includes ''package-lock=${LOCK}'' ''=${'' \<and>
   resolveNpmrc (npmrcEnv (Some ''.npmrc'') (Some ''package-lock=${LOCK}\<newline>registry=https://r/'') True)
       ''package.json'' \<lparr>config_npmrc = None, config_npmrcMerge = None\<rparr>
     = \<lparr>npmrc = Some ''\<newline>registry=https://r/'', npmrcFileName = Some ''.npmrc''\<rparr>"
  by (simp add: resolveNpmrc_def npmrcEnv_def truthy_def isString_def callerPrefix_def
        stripVariables_def stripPackageLock_def packageLockMatch_def startsWith_def)

section \<open>Properties of the scoped registry extraction\<close>

subsection \<open>What the two loops compute\<close>

text \<open>
  The line form has one line for each scope of the contributing upgrades, made from the
  first pair of that scope: the scopes of its lines are distinct, and looking a scope up
  among them gives what looking it up among all pairs gives, the first one.
\<close>

lemma npmrcLinesLoop_skip:
  "\<not> scopedUpgrade u \<Longrightarrow> npmrcLinesLoop seen lines (u # us) = npmrcLinesLoop seen lines us"
  by (auto simp: scopedUpgrade_def Let_def)

lemma npmrcLinesLoop_seen:
  "scopedUpgrade u \<Longrightarrow> splitSlashFirst (the (depName u)) \<in> seen \<Longrightarrow>
   npmrcLinesLoop seen lines (u # us) = npmrcLinesLoop seen lines us"
  by (auto simp: scopedUpgrade_def Let_def)

lemma npmrcLinesLoop_new:
  "scopedUpgrade u \<Longrightarrow> splitSlashFirst (the (depName u)) \<notin> seen \<Longrightarrow>
   npmrcLinesLoop seen lines (u # us) =
     npmrcLinesLoop (insert (splitSlashFirst (the (depName u))) seen)
       (lines @ [registryLine (splitSlashFirst (the (depName u)), the (firstRegistryUrl u))]) us"
  by (auto simp: scopedUpgrade_def registryLine_def Let_def)

lemma scopeRegistryPairs_Cons:
  "scopeRegistryPairs (u # us) =
     (if scopedUpgrade u
      then (splitSlashFirst (the (depName u)), the (firstRegistryUrl u)) # scopeRegistryPairs us
      else scopeRegistryPairs us)"
  by (simp add: scopeRegistryPairs_def)

lemma npmrcLinesLoop_char:
  "\<exists>L. npmrcLinesLoop seen lines upgrades = lines @ map registryLine L \<and>
       distinct (map fst L) \<and> fst ` set L \<inter> seen = {} \<and>
       (\<forall>k. map_of L k = (if k \<in> seen then None else map_of (scopeRegistryPairs upgrades) k))"
proof (induction upgrades arbitrary: seen lines)
  case Nil
  show ?case by (simp add: scopeRegistryPairs_def)
next
  case (Cons u us)
  let ?s = "splitSlashFirst (the (depName u))"
  let ?url = "the (firstRegistryUrl u)"
  show ?case
  proof (cases "scopedUpgrade u")
    case False
    show ?thesis
      unfolding npmrcLinesLoop_skip [OF False] scopeRegistryPairs_Cons using False Cons.IH
      by simp
  next
    case True
    show ?thesis
    proof (cases "?s \<in> seen")
      case in_seen: True
      from Cons.IH [of seen lines] obtain L where
        L: "npmrcLinesLoop seen lines us = lines @ map registryLine L"
           "distinct (map fst L)" "fst ` set L \<inter> seen = {}"
           "\<forall>k. map_of L k = (if k \<in> seen then None else map_of (scopeRegistryPairs us) k)"
        by blast
      have "\<forall>k. map_of L k =
                 (if k \<in> seen then None else map_of (scopeRegistryPairs (u # us)) k)"
        using L(4) in_seen True by (auto simp: scopeRegistryPairs_Cons)
      with L(1-3) show ?thesis
        unfolding npmrcLinesLoop_seen [OF True in_seen] by blast
    next
      case not_seen: False
      from Cons.IH [of "insert ?s seen" "lines @ [registryLine (?s, ?url)]"] obtain L where
        L: "npmrcLinesLoop (insert ?s seen) (lines @ [registryLine (?s, ?url)]) us
              = (lines @ [registryLine (?s, ?url)]) @ map registryLine L"
           "distinct (map fst L)" "fst ` set L \<inter> insert ?s seen = {}"
           "\<forall>k. map_of L k = (if k \<in> insert ?s seen then None
                               else map_of (scopeRegistryPairs us) k)"
        by blast
      have "npmrcLinesLoop seen lines (u # us) = lines @ map registryLine ((?s, ?url) # L)"
        unfolding npmrcLinesLoop_new [OF True not_seen] L(1) by simp
      moreover have "distinct (map fst ((?s, ?url) # L))"
        using L(2,3) by auto
      moreover have "fst ` set ((?s, ?url) # L) \<inter> seen = {}"
        using L(3) not_seen by auto
      moreover have "\<forall>k. map_of ((?s, ?url) # L) k =
                         (if k \<in> seen then None else map_of (scopeRegistryPairs (u # us)) k)"
        using L(4) not_seen True by (auto simp: scopeRegistryPairs_Cons)
      ultimately show ?thesis by blast
    qed
  qed
qed

lemma getRegistryNpmrcLines_char:
  "\<exists>L. getRegistryNpmrcLines upgrades = map registryLine L \<and> distinct (map fst L) \<and>
       map_of L = map_of (scopeRegistryPairs upgrades)"
proof -
  from npmrcLinesLoop_char [of "{}" "[]" upgrades] obtain L where
    "npmrcLinesLoop {} [] upgrades = [] @ map registryLine L" "distinct (map fst L)"
    "\<forall>k. map_of L k = (if k \<in> {} then None else map_of (scopeRegistryPairs upgrades) k)"
    by blast
  then have "getRegistryNpmrcLines upgrades = map registryLine L \<and> distinct (map fst L) \<and>
       map_of L = map_of (scopeRegistryPairs upgrades)"
    by (auto simp: getRegistryNpmrcLines_def)
  then show ?thesis ..
qed

text \<open>
  The map form has the same, keyed by the scope without its sigil, except that a scope
  whose name is a property of \<open>Object.prototype\<close> never gets an entry.
\<close>

lemma yarnrcScopesLoop_skip:
  "\<not> scopedUpgrade u \<Longrightarrow> yarnrcScopesLoop scopes (u # us) = yarnrcScopesLoop scopes us"
  by (auto simp: scopedUpgrade_def Let_def)

lemma yarnrcScopesLoop_seen:
  "scopedUpgrade u \<Longrightarrow> js_in (drop 1 (splitSlashFirst (the (depName u)))) scopes \<Longrightarrow>
   yarnrcScopesLoop scopes (u # us) = yarnrcScopesLoop scopes us"
  by (auto simp: scopedUpgrade_def Let_def)

lemma yarnrcScopesLoop_new:
  "scopedUpgrade u \<Longrightarrow> \<not> js_in (drop 1 (splitSlashFirst (the (depName u)))) scopes \<Longrightarrow>
   yarnrcScopesLoop scopes (u # us) =
     yarnrcScopesLoop
       (scopes @ [yarnScope (splitSlashFirst (the (depName u)), the (firstRegistryUrl u))]) us"
  by (auto simp: scopedUpgrade_def yarnScope_def Let_def)

lemma map_of_yarnScope_Cons:
  "scopedUpgrade u \<Longrightarrow>
   map_of (map yarnScope (scopeRegistryPairs (u # us))) k =
     (if k = drop 1 (splitSlashFirst (the (depName u)))
      then Some \<lparr>npmRegistryServer = the (firstRegistryUrl u)\<rparr>
      else map_of (map yarnScope (scopeRegistryPairs us)) k)"
  by (simp add: scopeRegistryPairs_Cons yarnScope_def)

lemma yarnrcScopesLoop_char:
  "\<exists>S. yarnrcScopesLoop scopes upgrades = scopes @ S \<and>
       distinct (map fst S) \<and>
       fst ` set S \<inter> (fst ` set scopes \<union> set objectPrototypeKeys) = {} \<and>
       (\<forall>k. map_of S k =
              (if k \<in> fst ` set scopes \<union> set objectPrototypeKeys then None
               else map_of (map yarnScope (scopeRegistryPairs upgrades)) k))"
proof (induction upgrades arbitrary: scopes)
  case Nil
  show ?case by (simp add: scopeRegistryPairs_def)
next
  case (Cons u us)
  let ?p = "(splitSlashFirst (the (depName u)), the (firstRegistryUrl u))"
  let ?k = "drop 1 (splitSlashFirst (the (depName u)))"
  let ?A = "fst ` set scopes \<union> set objectPrototypeKeys"
  show ?case
  proof (cases "scopedUpgrade u")
    case False
    then have eq: "scopeRegistryPairs (u # us) = scopeRegistryPairs us"
      by (simp add: scopeRegistryPairs_Cons)
    show ?thesis
      unfolding yarnrcScopesLoop_skip [OF False] eq by (rule Cons.IH)
  next
    case True
    show ?thesis
    proof (cases "js_in ?k scopes")
      case present: True
      from Cons.IH [of scopes] obtain S where
        S: "yarnrcScopesLoop scopes us = scopes @ S" "distinct (map fst S)"
           "fst ` set S \<inter> ?A = {}"
           "\<forall>k. map_of S k =
                  (if k \<in> ?A then None else map_of (map yarnScope (scopeRegistryPairs us)) k)"
        by blast
      from present have inA: "?k \<in> ?A"
        unfolding js_in_def by simp
      have "\<forall>k. map_of S k =
                  (if k \<in> ?A then None
                   else map_of (map yarnScope (scopeRegistryPairs (u # us))) k)"
      proof
        fix k
        show "map_of S k =
                (if k \<in> ?A then None
                 else map_of (map yarnScope (scopeRegistryPairs (u # us))) k)"
        proof (cases "k \<in> ?A")
          case True
          with S(4) show ?thesis by simp
        next
          case False
          with inA have "k \<noteq> ?k" by blast
          with False S(4) show ?thesis
            unfolding map_of_yarnScope_Cons [OF \<open>scopedUpgrade u\<close>] by simp
        qed
      qed
      with S(1-3) show ?thesis
        unfolding yarnrcScopesLoop_seen [OF True present] by blast
    next
      case absent: False
      then have notin: "?k \<notin> ?A"
        unfolding js_in_def by simp
      have key: "fst (yarnScope ?p) = ?k" by (simp add: yarnScope_def)
      have A': "fst ` set (scopes @ [yarnScope ?p]) \<union> set objectPrototypeKeys = insert ?k ?A"
        unfolding set_append image_Un Un_insert_left by (simp add: key)
      from Cons.IH [of "scopes @ [yarnScope ?p]"] obtain S where
        S: "yarnrcScopesLoop (scopes @ [yarnScope ?p]) us = (scopes @ [yarnScope ?p]) @ S"
           "distinct (map fst S)"
           "fst ` set S \<inter> insert ?k ?A = {}"
           "\<forall>k. map_of S k =
                  (if k \<in> insert ?k ?A then None
                   else map_of (map yarnScope (scopeRegistryPairs us)) k)"
        unfolding A' by blast
      have "yarnrcScopesLoop scopes (u # us) = scopes @ (yarnScope ?p # S)"
        unfolding yarnrcScopesLoop_new [OF True absent] S(1) by simp
      moreover from S(3) have "?k \<notin> fst ` set S" by blast
      then have "distinct (map fst (yarnScope ?p # S))"
        using S(2) key by simp
      moreover from S(3) have "fst ` set S \<inter> ?A = {}" by blast
      then have "fst ` set (yarnScope ?p # S) \<inter> ?A = {}"
        using notin key by simp
      moreover have "\<forall>k. map_of (yarnScope ?p # S) k =
                         (if k \<in> ?A then None
                          else map_of (map yarnScope (scopeRegistryPairs (u # us))) k)"
      proof
        fix k
        show "map_of (yarnScope ?p # S) k =
                (if k \<in> ?A then None
                 else map_of (map yarnScope (scopeRegistryPairs (u # us))) k)"
        proof (cases "k = ?k")
          case True
          with notin show ?thesis
            unfolding map_of_yarnScope_Cons [OF \<open>scopedUpgrade u\<close>]
            by (simp add: yarnScope_def)
        next
          case False
          have "map_of (yarnScope ?p # S) k = map_of S k"
            using False by (simp add: yarnScope_def)
          also have "\<dots> = (if k \<in> insert ?k ?A then None
                             else map_of (map yarnScope (scopeRegistryPairs us)) k)"
            using S(4) by blast
          also have "\<dots> = (if k \<in> ?A then None
                             else map_of (map yarnScope (scopeRegistryPairs (u # us))) k)"
            unfolding map_of_yarnScope_Cons [OF \<open>scopedUpgrade u\<close>] using False by simp
          finally show ?thesis .
        qed
      qed
      ultimately show ?thesis by blast
    qed
  qed
qed

lemma getRegistryYarnrcScopes_char:
  "\<exists>S. getRegistryYarnrcScopes upgrades = (if S = [] then None else Some \<lparr>npmScopes = S\<rparr>) \<and>
       distinct (map fst S) \<and>
       (\<forall>k. map_of S k =
              (if k \<in> set objectPrototypeKeys then None
               else map_of (map yarnScope (scopeRegistryPairs upgrades)) k))"
proof -
  let ?S = "yarnrcScopesLoop [] upgrades"
  have d: "distinct (map fst ?S)"
    and m: "\<forall>k. map_of ?S k =
                 (if k \<in> set objectPrototypeKeys then None
                  else map_of (map yarnScope (scopeRegistryPairs upgrades)) k)"
    using yarnrcScopesLoop_char [of "[]" upgrades] by simp_all
  have g: "getRegistryYarnrcScopes upgrades = (if ?S = [] then None else Some \<lparr>npmScopes = ?S\<rparr>)"
    by (simp add: getRegistryYarnrcScopes_def Let_def)
  from g d m show ?thesis
    by (intro exI [of _ ?S] conjI)
qed

text \<open>
  When no contributing scope is named like a property of \<open>Object.prototype\<close>, the two
  forms render the same list of pairs.
\<close>

lemma scopedUpgrade_sigil:
  "scopedUpgrade u \<Longrightarrow> \<exists>r. splitSlashFirst (the (depName u)) = CHR ''@'' # r"
proof -
  assume "scopedUpgrade u"
  then have "startsWith (the (depName u)) ''@''" by (simp add: scopedUpgrade_def)
  then obtain d where "the (depName u) = CHR ''@'' # d"
    by (cases "the (depName u)") (auto simp: startsWith_def)
  then show ?thesis by (simp add: splitSlashFirst_def)
qed

lemma forms_agree_loop:
  assumes "\<forall>p \<in> set (scopeRegistryPairs upgrades). drop 1 (fst p) \<notin> set objectPrototypeKeys"
    and "fst ` set scopes = drop 1 ` seen"
    and "\<forall>s \<in> seen. \<exists>r. s = CHR ''@'' # r"
  shows "\<exists>L. npmrcLinesLoop seen lines upgrades = lines @ map registryLine L \<and>
             yarnrcScopesLoop scopes upgrades = scopes @ map yarnScope L \<and>
             set L \<subseteq> set (scopeRegistryPairs upgrades)"
  using assms
proof (induction upgrades arbitrary: seen lines scopes)
  case Nil
  show ?case by simp
next
  case (Cons u us)
  let ?s = "splitSlashFirst (the (depName u))"
  let ?p = "(?s, the (firstRegistryUrl u))"
  show ?case
  proof (cases "scopedUpgrade u")
    case False
    with Cons.prems(1) have "\<forall>p \<in> set (scopeRegistryPairs us). drop 1 (fst p) \<notin> set objectPrototypeKeys"
      by (simp add: scopeRegistryPairs_Cons)
    from Cons.IH [OF this Cons.prems(2,3)] show ?thesis
      unfolding npmrcLinesLoop_skip [OF False] yarnrcScopesLoop_skip [OF False]
      using False by (simp add: scopeRegistryPairs_Cons)
  next
    case True
    with Cons.prems(1) have rest: "\<forall>p \<in> set (scopeRegistryPairs us). drop 1 (fst p) \<notin> set objectPrototypeKeys"
      and own: "drop 1 ?s \<notin> set objectPrototypeKeys"
      by (simp_all add: scopeRegistryPairs_Cons)
    from scopedUpgrade_sigil [OF True] obtain r where r: "?s = CHR ''@'' # r" by blast
    have same: "js_in (drop 1 ?s) scopes \<longleftrightarrow> ?s \<in> seen"
    proof
      assume "js_in (drop 1 ?s) scopes"
      with own have "drop 1 ?s \<in> drop 1 ` seen"
        using Cons.prems(2) by (auto simp: js_in_def)
      then obtain s' where s': "s' \<in> seen" "drop 1 ?s = drop 1 s'" by blast
      with Cons.prems(3) obtain r' where "s' = CHR ''@'' # r'" by blast
      with s' r show "?s \<in> seen" by simp
    next
      assume "?s \<in> seen"
      then have "drop 1 ?s \<in> fst ` set scopes"
        using Cons.prems(2) by blast
      then show "js_in (drop 1 ?s) scopes" by (auto simp: js_in_def)
    qed
    show ?thesis
    proof (cases "?s \<in> seen")
      case in_seen: True
      with same have present: "js_in (drop 1 ?s) scopes" by simp
      from Cons.IH [OF rest Cons.prems(2,3), of lines] obtain L where
        L: "npmrcLinesLoop seen lines us = lines @ map registryLine L"
           "yarnrcScopesLoop scopes us = scopes @ map yarnScope L"
           "set L \<subseteq> set (scopeRegistryPairs us)"
        by blast
      from L(3) have "set L \<subseteq> set (scopeRegistryPairs (u # us))"
        by (auto simp: scopeRegistryPairs_Cons)
      with L(1,2) show ?thesis
        unfolding npmrcLinesLoop_seen [OF True in_seen] yarnrcScopesLoop_seen [OF True present]
        by blast
    next
      case not_seen: False
      with same have absent: "\<not> js_in (drop 1 ?s) scopes" by simp
      have "fst ` set (scopes @ [yarnScope ?p]) = insert (drop 1 ?s) (fst ` set scopes)"
        by (simp add: yarnScope_def)
      also have "\<dots> = insert (drop 1 ?s) (drop 1 ` seen)"
        by (simp only: Cons.prems(2))
      also have "\<dots> = drop 1 ` insert ?s seen"
        by simp
      finally have inv1: "fst ` set (scopes @ [yarnScope ?p]) = drop 1 ` insert ?s seen" .
      have inv2: "\<forall>s \<in> insert ?s seen. \<exists>r. s = CHR ''@'' # r"
        using Cons.prems(3) r by auto
      from Cons.IH [OF rest inv1 inv2, of "lines @ [registryLine ?p]"] obtain L where
        L: "npmrcLinesLoop (insert ?s seen) (lines @ [registryLine ?p]) us
              = (lines @ [registryLine ?p]) @ map registryLine L"
           "yarnrcScopesLoop (scopes @ [yarnScope ?p]) us
              = (scopes @ [yarnScope ?p]) @ map yarnScope L"
           "set L \<subseteq> set (scopeRegistryPairs us)"
        by blast
      have "npmrcLinesLoop seen lines (u # us) = lines @ map registryLine (?p # L)"
        unfolding npmrcLinesLoop_new [OF True not_seen] L(1) by simp
      moreover have "yarnrcScopesLoop scopes (u # us) = scopes @ map yarnScope (?p # L)"
        unfolding yarnrcScopesLoop_new [OF True absent] L(2) by simp
      moreover have "set (?p # L) \<subseteq> set (scopeRegistryPairs (u # us))"
        using L(3) True by (auto simp: scopeRegistryPairs_Cons)
      ultimately show ?thesis by blast
    qed
  qed
qed

lemma forms_agree:
  assumes "\<forall>p \<in> set (scopeRegistryPairs upgrades). drop 1 (fst p) \<notin> set objectPrototypeKeys"
  shows "\<exists>L. getRegistryNpmrcLines upgrades = map registryLine L \<and>
             getRegistryYarnrcScopes upgrades =
               (if L = [] then None else Some \<lparr>npmScopes = map yarnScope L\<rparr>)"
proof -
  from forms_agree_loop [OF assms, of "[]" "{}" "[]"] obtain L where
    "npmrcLinesLoop {} [] upgrades = [] @ map registryLine L"
    "yarnrcScopesLoop [] upgrades = [] @ map yarnScope L"
    by auto
  then have "getRegistryNpmrcLines upgrades = map registryLine L \<and>
             getRegistryYarnrcScopes upgrades =
               (if L = [] then None else Some \<lparr>npmScopes = map yarnScope L\<rparr>)"
    by (simp add: getRegistryNpmrcLines_def getRegistryYarnrcScopes_def)
  then show ?thesis ..
qed

text \<open>The two lists of the specification: both forms on the example, and on no upgrade.\<close>

lemma getRegistry_myorg_example:
  "getRegistryNpmrcLines
     [\<lparr>depName = Some ''@myorg/a'', registryUrls = Some [''https://r/'']\<rparr>,
      \<lparr>depName = Some ''@myorg/b'', registryUrls = Some [''https://r/'']\<rparr>]
     = [''@myorg:registry=https://r/''] \<and>
   getRegistryYarnrcScopes
     [\<lparr>depName = Some ''@myorg/a'', registryUrls = Some [''https://r/'']\<rparr>,
      \<lparr>depName = Some ''@myorg/b'', registryUrls = Some [''https://r/'']\<rparr>]
     = Some \<lparr>npmScopes = [(''myorg'', \<lparr>npmRegistryServer = ''https://r/''\<rparr>)]\<rparr>"
  by (simp add: getRegistryNpmrcLines_def getRegistryYarnrcScopes_def firstRegistryUrl_def
        isNonEmptyString_def startsWith_def splitSlashFirst_def js_in_def
        objectPrototypeKeys_def)

lemma getRegistry_empty:
  "getRegistryNpmrcLines [] = [] \<and> getRegistryYarnrcScopes [] = None"
  by (simp add: getRegistryNpmrcLines_def getRegistryYarnrcScopes_def)

subsection \<open>A scope named like an inherited property\<close>

text \<open>
  C8. Each of the two functions is to emit exactly one entry for a first-seen scope. For
  an upgrade of the scope \<open>constructor\<close>, with a registry URL, the line form has its
  line, and the map form has no entry: it returns the absent value.
\<close>

theorem getRegistryYarnrcScopes_inherited_scope:
  "getRegistryNpmrcLines
     [\<lparr>depName = Some ''@constructor/pkg'', registryUrls = Some [''https://r/'']\<rparr>]
     = [''@constructor:registry=https://r/''] \<and>
   getRegistryYarnrcScopes
     [\<lparr>depName = Some ''@constructor/pkg'', registryUrls = Some [''https://r/'']\<rparr>]
     = None"
  by (simp add: getRegistryNpmrcLines_def getRegistryYarnrcScopes_def firstRegistryUrl_def
        isNonEmptyString_def startsWith_def splitSlashFirst_def js_in_def
        objectPrototypeKeys_def)

text \<open>
  C10. The two forms are to cover the same scopes. For upgrades of the scopes \<open>myorg\<close>
  and \<open>constructor\<close> the line form covers both and the map form covers \<open>myorg\<close> only.
\<close>

theorem registry_forms_cover_different_scopes:
  "getRegistryNpmrcLines
     [\<lparr>depName = Some ''@myorg/a'', registryUrls = Some [''https://r1/'']\<rparr>,
      \<lparr>depName = Some ''@constructor/b'', registryUrls = Some [''https://r2/'']\<rparr>]
     = [''@myorg:registry=https://r1/'', ''@constructor:registry=https://r2/''] \<and>
   getRegistryYarnrcScopes
     [\<lparr>depName = Some ''@myorg/a'', registryUrls = Some [''https://r1/'']\<rparr>,
      \<lparr>depName = Some ''@constructor/b'', registryUrls = Some [''https://r2/'']\<rparr>]
     = Some \<lparr>npmScopes = [(''myorg'', \<lparr>npmRegistryServer = ''https://r1/''\<rparr>)]\<rparr>"
  by (simp add: getRegistryNpmrcLines_def getRegistryYarnrcScopes_def firstRegistryUrl_def
        isNonEmptyString_def startsWith_def splitSlashFirst_def js_in_def
        objectPrototypeKeys_def)

end
